theory Spec2Isabelle
  imports Main "HOL-Library.Sublist"
begin

section \<open>Data model\<close>

text \<open>
  The socket server of \<^verbatim>\<open>server/socket/index.js\<close>. Identities are the string form of
  a user's \<^verbatim>\<open>_id\<close> (\<^verbatim>\<open>user._id.toString()\<close>); a socket is named by its \<^verbatim>\<open>socket.id\<close>;
  conversation and message documents carry a store-generated id.
\<close>

type_synonym ident = string
type_synonym sid = nat

record user =
  u_id :: ident
  u_name :: string
  u_email :: string
  u_profile_pic :: string
  u_password :: string

record message_doc =
  m_id :: nat
  m_text :: "string option"
  m_imageUrl :: "string option"
  m_videoUrl :: "string option"
  m_msgByUserId :: ident
  m_seen :: bool

record conversation =
  c_id :: nat
  c_sender :: ident
  c_receiver :: ident
  c_messages :: "nat list"
  c_updatedAt :: nat

text \<open>The payload of a \<^verbatim>\<open>new message\<close> event.\<close>

record new_message_data =
  d_sender :: ident
  d_receiver :: ident
  d_text :: "string option"
  d_imageUrl :: "string option"
  d_videoUrl :: "string option"
  d_msgByUserId :: ident

text \<open>The payload of \<^verbatim>\<open>message-user\<close> (lines 58-64): the password is never copied.\<close>

record profile =
  p_id :: ident
  p_name :: string
  p_email :: string
  p_profile_pic :: string
  p_online :: bool

record summary =
  s_id :: nat
  s_peer :: ident
  s_display :: "(string \<times> string \<times> string) option"
  s_online :: bool
  s_messages :: "message_doc list"

text \<open>
  The persistent store: the three collections, the generator of document ids, and a
  logical clock that stamps \<^verbatim>\<open>updatedAt\<close>.
\<close>

record store =
  users :: "user list"
  conversations :: "conversation list"
  messages_coll :: "message_doc list"
  next_id :: nat
  clock :: nat

datatype target = ToAll | ToSocket sid | ToRoom ident

datatype payload =
    OnlineUser "ident list"
  | MessageUser profile
  | Message "message_doc list"
  | Conversation "summary list"

type_synonym emission = "target \<times> payload"

text \<open>
  The process state: the store, the module-level \<^verbatim>\<open>onlineUsers\<close> set (a JavaScript
  \<^verbatim>\<open>Set\<close> keeps insertion order, so it is a duplicate-free list), the sockets that
  joined their identity's room and have the handlers registered (\<open>bound\<close>, with the
  \<^verbatim>\<open>userId\<close> their closures hold), the sockets closed by \<^verbatim>\<open>socket.disconnect(true)\<close>,
  the next \<^verbatim>\<open>socket.id\<close> the transport hands out, and the log of everything emitted.
  The connection handler suspends at \<^verbatim>\<open>await getUserDetailsFromToken(token)\<close> (line 37):
  \<open>pending\<close> holds the sockets whose handler is suspended there, with their token, and
  \<open>dropped\<close> the sockets that closed while their handler was suspended there, when no
  \<^verbatim>\<open>disconnect\<close> listener was registered yet (line 169).
\<close>

record world =
  w_store :: store
  onlineUsers :: "ident list"
  bound :: "(sid \<times> ident) list"
  closed :: "sid list"
  next_sid :: sid
  emitted :: "emission list"
  pending :: "(sid \<times> string) list"
  dropped :: "sid list"

datatype error = StoreError | AuthError

text \<open>
  A handler awaits the store at numbered call sites; \<open>fault\<close> names the call site whose
  promise rejects in this invocation (\<open>None\<close>: every call succeeds). The rejection reaches
  the handler's \<^verbatim>\<open>catch\<close>, which only logs.
\<close>

type_synonym fault = "nat option"

section \<open>The presence set\<close>

definition set_add :: "ident \<Rightarrow> ident list \<Rightarrow> ident list" where
  "set_add x xs = (if x \<in> set xs then xs else xs @ [x])"

definition set_delete :: "ident \<Rightarrow> ident list \<Rightarrow> ident list" where
  "set_delete x xs = filter (\<lambda>y. y \<noteq> x) xs"

definition set_has :: "ident \<Rightarrow> ident list \<Rightarrow> bool" where
  "set_has x xs = (x \<in> set xs)"

section \<open>Store operations\<close>

text \<open>
  Modelled from the spec: the schemas of \<^verbatim>\<open>models/UserModel\<close> and
  \<^verbatim>\<open>models/ConversationModel\<close> are not part of the socket module. The operations are
  the Mongoose calls the handlers make, on the fields the handlers read and write. From
  the spec's data model: a conversation keeps its message ids in insertion order and a
  last-updated timestamp (\<^verbatim>\<open>updatedAt\<close>, the field the handlers sort on), stamped when the
  conversation is created and when a message id is appended; a message is created unseen
  and is changed only to set \<open>seen\<close>. The store offers find, insert, update-by-id and
  update-many, with no uniqueness constraint on the participant pair.
\<close>

definition UserModel_findById :: "store \<Rightarrow> ident \<Rightarrow> user option" where
  "UserModel_findById s i = find (\<lambda>u. u_id u = i) (users s)"

definition between :: "ident \<Rightarrow> ident \<Rightarrow> conversation \<Rightarrow> bool" where
  "between a b c =
     ((c_sender c = a \<and> c_receiver c = b) \<or> (c_sender c = b \<and> c_receiver c = a))"

definition ConversationModel_findOne :: "store \<Rightarrow> ident \<Rightarrow> ident \<Rightarrow> conversation option" where
  "ConversationModel_findOne s a b = find (between a b) (conversations s)"

definition newest_first :: "conversation list \<Rightarrow> conversation list" where
  "newest_first cs = sort_key (\<lambda>c. - int (c_updatedAt c)) cs"

definition ConversationModel_findOne_sorted ::
    "store \<Rightarrow> ident \<Rightarrow> ident \<Rightarrow> conversation option" where
  "ConversationModel_findOne_sorted s a b =
     (case newest_first (filter (between a b) (conversations s)) of
        [] \<Rightarrow> None
      | c # _ \<Rightarrow> Some c)"

definition populate :: "store \<Rightarrow> nat list \<Rightarrow> message_doc list" where
  "populate s ids = List.map_filter (\<lambda>i. find (\<lambda>m. m_id m = i) (messages_coll s)) ids"

definition ConversationModel_findById :: "store \<Rightarrow> nat \<Rightarrow> conversation option" where
  "ConversationModel_findById s i = find (\<lambda>c. c_id c = i) (conversations s)"

definition ConversationModel_save :: "ident \<Rightarrow> ident \<Rightarrow> store \<Rightarrow> conversation \<times> store" where
  "ConversationModel_save a b s =
     (let c = \<lparr>c_id = next_id s, c_sender = a, c_receiver = b, c_messages = [],
               c_updatedAt = Suc (clock s)\<rparr>
      in (c, s\<lparr>conversations := conversations s @ [c],
               next_id := Suc (next_id s), clock := Suc (clock s)\<rparr>))"

definition MessageModel_save :: "new_message_data \<Rightarrow> store \<Rightarrow> message_doc \<times> store" where
  "MessageModel_save data s =
     (let m = \<lparr>m_id = next_id s, m_text = d_text data, m_imageUrl = d_imageUrl data,
               m_videoUrl = d_videoUrl data, m_msgByUserId = d_msgByUserId data,
               m_seen = False\<rparr>
      in (m, s\<lparr>messages_coll := messages_coll s @ [m], next_id := Suc (next_id s)\<rparr>))"

definition push_message :: "nat \<Rightarrow> nat \<Rightarrow> nat \<Rightarrow> conversation \<Rightarrow> conversation" where
  "push_message i mid t c =
     (if c_id c = i then c\<lparr>c_messages := c_messages c @ [mid], c_updatedAt := t\<rparr> else c)"

definition ConversationModel_findByIdAndUpdate :: "nat \<Rightarrow> nat \<Rightarrow> store \<Rightarrow> store" where
  "ConversationModel_findByIdAndUpdate i mid s =
     s\<lparr>conversations := map (push_message i mid (Suc (clock s))) (conversations s),
       clock := Suc (clock s)\<rparr>"

definition mark_seen :: "nat list \<Rightarrow> ident \<Rightarrow> message_doc \<Rightarrow> message_doc" where
  "mark_seen ids author m =
     (if m_id m \<in> set ids \<and> m_msgByUserId m = author then m\<lparr>m_seen := True\<rparr> else m)"

definition MessageModel_updateMany :: "nat list \<Rightarrow> ident \<Rightarrow> store \<Rightarrow> store" where
  "MessageModel_updateMany ids author s =
     s\<lparr>messages_coll := map (mark_seen ids author) (messages_coll s)\<rparr>"

text \<open>The \<^verbatim>\<open>modifiedCount\<close> of that \<^verbatim>\<open>updateMany\<close>: the documents it matches and changes.\<close>

definition modifiedCount :: "nat list \<Rightarrow> ident \<Rightarrow> store \<Rightarrow> nat" where
  "modifiedCount ids author s =
     length (filter (\<lambda>m. m_id m \<in> set ids \<and> m_msgByUserId m = author \<and> \<not> m_seen m)
               (messages_coll s))"

subsection \<open>The summary helper\<close>

text \<open>
  Modelled from the spec: \<^verbatim>\<open>helpers/getConversation\<close> is required by the socket module
  but is not part of it; this subsection follows the spec's \<^verbatim>\<open>summariesFor\<close> and
  \<^verbatim>\<open>ConversationSummary\<close>.
\<close>

definition involves :: "ident \<Rightarrow> conversation \<Rightarrow> bool" where
  "involves x c = (c_sender c = x \<or> c_receiver c = x)"

definition conversations_of :: "store \<Rightarrow> ident \<Rightarrow> conversation list" where
  "conversations_of s x = newest_first (filter (involves x) (conversations s))"

definition peer_of :: "ident \<Rightarrow> conversation \<Rightarrow> ident" where
  "peer_of x c = (if c_sender c = x then c_receiver c else c_sender c)"

definition summarise :: "ident list \<Rightarrow> store \<Rightarrow> ident \<Rightarrow> conversation \<Rightarrow> summary" where
  "summarise online s x c =
     \<lparr>s_id = c_id c,
      s_peer = peer_of x c,
      s_display = map_option (\<lambda>u. (u_name u, u_email u, u_profile_pic u))
                    (UserModel_findById s (peer_of x c)),
      s_online = set_has (peer_of x c) online,
      s_messages = populate s (c_messages c)\<rparr>"

text \<open>
  Modelled from the spec: \<^verbatim>\<open>helpers/getConversation\<close> is required by the socket module
  but is not part of it. The spec's \<^verbatim>\<open>summariesFor(identity)\<close>: all conversations
  involving the identity, ordered by last-updated descending, each projected to the peer
  identity, the peer's display attributes, the peer's online flag read from the presence
  set at the moment of computation, and the ordered messages.
\<close>

definition getConversation :: "ident list \<Rightarrow> store \<Rightarrow> ident \<Rightarrow> summary list" where
  "getConversation online s x = map (summarise online s x) (conversations_of s x)"

section \<open>The handlers\<close>

definition emit :: "target \<Rightarrow> payload \<Rightarrow> world \<Rightarrow> world" where
  "emit t p w = w\<lparr>emitted := emitted w @ [(t, p)]\<rparr>"

definition socket_disconnect :: "sid \<Rightarrow> world \<Rightarrow> world" where
  "socket_disconnect k w = w\<lparr>closed := closed w @ [k]\<rparr>"

text \<open>
  Lines 25-51 and 174-177. \<^verbatim>\<open>!token\<close> holds for a missing token and for the empty
  string. \<^verbatim>\<open>getUserDetailsFromToken\<close> is a helper outside the socket module and is a
  parameter here: it rejects (\<open>Inl\<close>), resolves to nothing, or resolves to a user.
\<close>

definition on_connection ::
    "(string \<Rightarrow> error + user option) \<Rightarrow> sid \<Rightarrow> string option \<Rightarrow> world \<Rightarrow> world" where
  "on_connection getUserDetailsFromToken k token w =
     (case token of
        None \<Rightarrow> socket_disconnect k w
      | Some t \<Rightarrow>
          if t = [] then socket_disconnect k w
          else (case getUserDetailsFromToken t of
                  Inl e \<Rightarrow> socket_disconnect k w
                | Inr None \<Rightarrow> socket_disconnect k w
                | Inr (Some user) \<Rightarrow>
                    let userId = u_id user;
                        w1 = w\<lparr>bound := bound w @ [(k, userId)],
                               onlineUsers := set_add userId (onlineUsers w)\<rparr>
                    in emit ToAll (OnlineUser (onlineUsers w1)) w1))"

text \<open>Lines 53-80. Call sites: 0 \<^verbatim>\<open>UserModel.findById\<close>, 1 \<^verbatim>\<open>ConversationModel.findOne\<close>.\<close>

definition on_message_page :: "fault \<Rightarrow> sid \<times> ident \<Rightarrow> ident \<Rightarrow> world \<Rightarrow> world" where
  "on_message_page f sess targetUserId w =
     (if f = Some 0 then w
      else (case UserModel_findById (w_store w) targetUserId of
              None \<Rightarrow> w
            | Some targetUser \<Rightarrow>
                let payload = \<lparr>p_id = u_id targetUser, p_name = u_name targetUser,
                               p_email = u_email targetUser,
                               p_profile_pic = u_profile_pic targetUser,
                               p_online = set_has targetUserId (onlineUsers w)\<rparr>;
                    w1 = emit (ToSocket (fst sess)) (MessageUser payload) w
                in if f = Some 1 then w1
                   else emit (ToSocket (fst sess))
                          (Message (case ConversationModel_findOne_sorted (w_store w1)
                                            (snd sess) targetUserId of
                                      None \<Rightarrow> []
                                    | Some c \<Rightarrow> populate (w_store w1) (c_messages c)))
                          w1))"

text \<open>
  Lines 83-130. Call sites: 0 \<^verbatim>\<open>findOne\<close>, 1 \<^verbatim>\<open>newConversation.save\<close>,
  2 \<^verbatim>\<open>message.save\<close>, 3 \<^verbatim>\<open>findByIdAndUpdate\<close>, 4 \<^verbatim>\<open>findById\<close>,
  5 and 6 the two \<^verbatim>\<open>getConversation\<close> calls. \<open>nm_continue\<close> is the handler from
  line 92 on, once the awaited \<^verbatim>\<open>findOne\<close> of line 85 has resolved to \<open>found\<close>.
\<close>

definition nm_resolve ::
    "fault \<Rightarrow> new_message_data \<Rightarrow> conversation option \<Rightarrow> store \<Rightarrow> (conversation \<times> store) option" where
  "nm_resolve f data found s =
     (case found of
        Some c \<Rightarrow> Some (c, s)
      | None \<Rightarrow>
          if f = Some 1 then None
          else Some (ConversationModel_save (d_sender data) (d_receiver data) s))"

definition nm_fanout :: "fault \<Rightarrow> new_message_data \<Rightarrow> nat \<Rightarrow> world \<Rightarrow> world" where
  "nm_fanout f data i w =
     (if f = Some 4 then w
      else
        let msgs = (case ConversationModel_findById (w_store w) i of
                      None \<Rightarrow> []
                    | Some c \<Rightarrow> populate (w_store w) (c_messages c));
            w1 = emit (ToRoom (d_sender data)) (Message msgs) w;
            w2 = emit (ToRoom (d_receiver data)) (Message msgs) w1
        in if f = Some 5 then w2
           else if f = Some 6 then w2
           else
             let senderConversations =
                   getConversation (onlineUsers w2) (w_store w2) (d_sender data);
                 receiverConversations =
                   getConversation (onlineUsers w2) (w_store w2) (d_receiver data);
                 w3 = emit (ToRoom (d_sender data)) (Conversation senderConversations) w2
             in emit (ToRoom (d_receiver data)) (Conversation receiverConversations) w3)"

definition nm_continue ::
    "fault \<Rightarrow> sid \<times> ident \<Rightarrow> new_message_data \<Rightarrow> conversation option \<Rightarrow> world \<Rightarrow> world" where
  "nm_continue f sess data found w =
     (case nm_resolve f data found (w_store w) of
        None \<Rightarrow> w
      | Some (conversation, s1) \<Rightarrow>
          if f = Some 2 then w\<lparr>w_store := s1\<rparr>
          else
            let (message, s2) = MessageModel_save data s1
            in if f = Some 3 then w\<lparr>w_store := s2\<rparr>
               else
                 nm_fanout f data (c_id conversation)
                   (w\<lparr>w_store :=
                        ConversationModel_findByIdAndUpdate (c_id conversation)
                          (m_id message) s2\<rparr>))"

definition on_new_message ::
    "fault \<Rightarrow> sid \<times> ident \<Rightarrow> new_message_data \<Rightarrow> world \<Rightarrow> world" where
  "on_new_message f sess data w =
     (if f = Some 0 then w
      else nm_continue f sess data
             (ConversationModel_findOne (w_store w) (d_sender data) (d_receiver data)) w)"

text \<open>Lines 133-140. Call site 0 is \<^verbatim>\<open>getConversation\<close>.\<close>

definition on_sidebar :: "fault \<Rightarrow> sid \<times> ident \<Rightarrow> ident \<Rightarrow> world \<Rightarrow> world" where
  "on_sidebar f sess currentUserId w =
     (if f = Some 0 then w
      else emit (ToSocket (fst sess))
             (Conversation (getConversation (onlineUsers w) (w_store w) currentUserId)) w)"

text \<open>
  Lines 143-166. Call sites: 0 \<^verbatim>\<open>findOne\<close>, 1 \<^verbatim>\<open>updateMany\<close>, 2 and 3 the two
  \<^verbatim>\<open>getConversation\<close> calls.
\<close>

definition seen_ids :: "store \<Rightarrow> ident \<Rightarrow> ident \<Rightarrow> nat list" where
  "seen_ids s userId targetUserId =
     (case ConversationModel_findOne s userId targetUserId of
        None \<Rightarrow> []
      | Some c \<Rightarrow> c_messages c)"

definition on_seen :: "fault \<Rightarrow> sid \<times> ident \<Rightarrow> ident \<Rightarrow> world \<Rightarrow> world" where
  "on_seen f sess targetUserId w =
     (if f = Some 0 then w
      else
        let messageIds = seen_ids (w_store w) (snd sess) targetUserId
        in if f = Some 1 then w
           else
             let w1 = w\<lparr>w_store := MessageModel_updateMany messageIds targetUserId (w_store w)\<rparr>
             in if f = Some 2 then w1
                else if f = Some 3 then w1
                else
                  let senderConversations =
                        getConversation (onlineUsers w1) (w_store w1) (snd sess);
                      receiverConversations =
                        getConversation (onlineUsers w1) (w_store w1) targetUserId;
                      w2 = emit (ToRoom (snd sess)) (Conversation senderConversations) w1
                  in emit (ToRoom targetUserId) (Conversation receiverConversations) w2)"

text \<open>Lines 169-173; the transport drops the socket from its rooms.\<close>

definition on_disconnect :: "sid \<times> ident \<Rightarrow> world \<Rightarrow> world" where
  "on_disconnect sess w =
     (let w1 = w\<lparr>onlineUsers := set_delete (snd sess) (onlineUsers w),
                 bound := filter (\<lambda>b. fst b \<noteq> fst sess) (bound w)\<rparr>
      in emit ToAll (OnlineUser (onlineUsers w1)) w1)"

section \<open>The event loop\<close>

datatype event =
    Connect "string option"
  | Verified sid
  | Disconnect sid
  | MessagePage sid ident
  | NewMessage sid new_message_data
  | Sidebar sid ident
  | Seen sid ident

text \<open>
  A connection gets a fresh \<^verbatim>\<open>socket.id\<close>; an event on a socket reaches a handler only
  if the handlers were registered on it, and runs with that socket's \<^verbatim>\<open>userId\<close>.
\<close>

definition on_socket :: "sid \<Rightarrow> (sid \<times> ident \<Rightarrow> world \<Rightarrow> world) \<Rightarrow> world \<Rightarrow> world" where
  "on_socket k h w = (case map_of (bound w) k of None \<Rightarrow> w | Some userId \<Rightarrow> h (k, userId) w)"

text \<open>
  Whether the connection handler reaches its \<^verbatim>\<open>await\<close> at line 37: it returns before
  it at line 33 when \<^verbatim>\<open>!token\<close>.
\<close>

definition awaits_verifier :: "string option \<Rightarrow> bool" where
  "awaits_verifier token = (case token of None \<Rightarrow> False | Some t \<Rightarrow> t \<noteq> [])"

text \<open>
  What each event makes the process do.
  \<^item> \<open>Connect\<close>: a connection arrives and its handler runs up to line 37. Without a token
    the whole handler runs now; with one it suspends and the socket is pending.
  \<^item> \<open>Verified\<close>: the verifier's promise for a pending socket settles and the handler
    resumes at line 38. It does not look at the socket's state, so it joins, adds and
    registers the listeners on a socket that has closed meanwhile as on an open one.
  \<^item> \<open>Disconnect\<close>: a socket closes. If its connection handler is still suspended there is
    no listener and the close only drops the socket; otherwise the \<^verbatim>\<open>disconnect\<close>
    listener runs, if one is registered.
  \<^item> The other events run the handler registered on the socket.
  The handlers of the other events are run in one step: they write the store and the
  emission log only, never the presence set or the sockets, so where they suspend makes
  no difference to those (for the store it does, see \<open>new_messages_interleaved\<close>).
\<close>

fun dispatch :: "(string \<Rightarrow> error + user option) \<Rightarrow> fault \<times> event \<Rightarrow> world \<Rightarrow> world" where
  "dispatch v (f, Connect token) w =
     (if awaits_verifier token
      then w\<lparr>next_sid := Suc (next_sid w),
             pending := pending w @ [(next_sid w, case token of None \<Rightarrow> [] | Some t \<Rightarrow> t)]\<rparr>
      else on_connection v (next_sid w) token (w\<lparr>next_sid := Suc (next_sid w)\<rparr>))"
| "dispatch v (f, Verified k) w =
     (case map_of (pending w) k of
        None \<Rightarrow> w
      | Some t \<Rightarrow>
          on_connection v k (Some t) (w\<lparr>pending := filter (\<lambda>p. fst p \<noteq> k) (pending w)\<rparr>))"
| "dispatch v (f, Disconnect k) w =
     (if k \<in> fst ` set (pending w) then w\<lparr>dropped := dropped w @ [k]\<rparr>
      else on_socket k on_disconnect w)"
| "dispatch v (f, MessagePage k t) w = on_socket k (\<lambda>sess. on_message_page f sess t) w"
| "dispatch v (f, NewMessage k d) w = on_socket k (\<lambda>sess. on_new_message f sess d) w"
| "dispatch v (f, Sidebar k i) w = on_socket k (\<lambda>sess. on_sidebar f sess i) w"
| "dispatch v (f, Seen k t) w = on_socket k (\<lambda>sess. on_seen f sess t) w"

text \<open>
  The transport delivers nothing on a socket that has closed: its listeners, also those
  registered after the close, never run, and it cannot close a second time.
\<close>

fun socket_of :: "event \<Rightarrow> sid option" where
  "socket_of (Connect token) = None"
| "socket_of (Verified k) = None"
| "socket_of (Disconnect k) = Some k"
| "socket_of (MessagePage k t) = Some k"
| "socket_of (NewMessage k d) = Some k"
| "socket_of (Sidebar k i) = Some k"
| "socket_of (Seen k t) = Some k"

definition arrives :: "event \<Rightarrow> world \<Rightarrow> bool" where
  "arrives e w = (case socket_of e of None \<Rightarrow> True | Some k \<Rightarrow> k \<notin> set (dropped w))"

definition step :: "(string \<Rightarrow> error + user option) \<Rightarrow> fault \<times> event \<Rightarrow> world \<Rightarrow> world" where
  "step v e w = (if arrives (snd e) w then dispatch v e w else w)"

fun run :: "(string \<Rightarrow> error + user option) \<Rightarrow> (fault \<times> event) list \<Rightarrow> world \<Rightarrow> world" where
  "run v [] w = w"
| "run v (e # es) w = run v es (step v e w)"

definition empty_store :: "user list \<Rightarrow> store" where
  "empty_store us = \<lparr>users = us, conversations = [], messages_coll = [], next_id = 0, clock = 0\<rparr>"

definition start :: "user list \<Rightarrow> world" where
  "start us = \<lparr>w_store = empty_store us, onlineUsers = [], bound = [], closed = [],
               next_sid = 0, emitted = [], pending = [], dropped = []\<rparr>"

section \<open>Interleaving and invariants\<close>

text \<open>
  Two \<^verbatim>\<open>new message\<close> handlers whose \<^verbatim>\<open>findOne\<close> queries (line 85) are both answered
  before either handler resumes at line 92: each handler suspends at its first
  \<^verbatim>\<open>await\<close>, so the second event is taken up while the first query is in flight.
\<close>

definition new_messages_interleaved ::
    "sid \<times> ident \<Rightarrow> new_message_data \<Rightarrow> sid \<times> ident \<Rightarrow> new_message_data \<Rightarrow> world \<Rightarrow> world" where
  "new_messages_interleaved sess1 d1 sess2 d2 w =
     (let found1 = ConversationModel_findOne (w_store w) (d_sender d1) (d_receiver d1);
          found2 = ConversationModel_findOne (w_store w) (d_sender d2) (d_receiver d2)
      in nm_continue None sess2 d2 found2 (nm_continue None sess1 d1 found1 w))"

text \<open>The rows of the conversation collection for an unordered pair.\<close>

definition rows_between :: "store \<Rightarrow> ident \<Rightarrow> ident \<Rightarrow> conversation list" where
  "rows_between s a b = filter (between a b) (conversations s)"

text \<open>
  What the store's id generator and clock guarantee: ids are below the generator and
  distinct within a collection, a conversation lists only ids already handed out, and no
  row is stamped later than the clock.
\<close>

definition store_wf :: "store \<Rightarrow> bool" where
  "store_wf s =
     (distinct (map c_id (conversations s)) \<and>
      distinct (map m_id (messages_coll s)) \<and>
      list_all (\<lambda>c. c_id c < next_id s \<and> c_updatedAt c \<le> clock s \<and>
                     list_all (\<lambda>i. i < next_id s) (c_messages c)) (conversations s) \<and>
      list_all (\<lambda>m. m_id m < next_id s) (messages_coll s))"

text \<open>
  The identities that hold an open, bound session: those of the sockets that joined and
  have their listeners registered, and have not closed.
\<close>

definition open_identities :: "world \<Rightarrow> ident set" where
  "open_identities w = snd ` {b \<in> set (bound w). fst b \<notin> set (dropped w)}"

text \<open>
  Two conditions on an event, given the state it meets: no socket closes while its
  connection handler is suspended on the verifier, and no connection is verified as an
  identity that already holds an open session. \<open>holds_along\<close> asks a condition of
  every event of a trace.
\<close>

definition no_early_close :: "event \<Rightarrow> world \<Rightarrow> bool" where
  "no_early_close e w =
     (case e of Disconnect k \<Rightarrow> k \<notin> fst ` set (pending w) | _ \<Rightarrow> True)"

definition joins_fresh :: "(string \<Rightarrow> error + user option) \<Rightarrow> event \<Rightarrow> world \<Rightarrow> bool" where
  "joins_fresh v e w =
     (case e of
        Verified k \<Rightarrow>
          (case map_of (pending w) k of
             None \<Rightarrow> True
           | Some t \<Rightarrow>
               (case v t of Inr (Some u) \<Rightarrow> u_id u \<notin> open_identities w | _ \<Rightarrow> True))
      | _ \<Rightarrow> True)"

fun holds_along ::
    "(event \<Rightarrow> world \<Rightarrow> bool) \<Rightarrow> (string \<Rightarrow> error + user option) \<Rightarrow>
     (fault \<times> event) list \<Rightarrow> world \<Rightarrow> bool" where
  "holds_along P v [] w = True"
| "holds_along P v (e # es) w = (P (snd e) w \<and> holds_along P v es (step v e w))"

text \<open>
  Socket ids are handed out once, in increasing order, and a socket is pending before it
  is bound.
\<close>

definition sids_ok :: "world \<Rightarrow> bool" where
  "sids_ok w =
     (distinct (map fst (bound w)) \<and>
      (\<forall>b \<in> set (bound w). fst b < next_sid w) \<and>
      (\<forall>p \<in> set (pending w). fst p < next_sid w \<and> fst p \<notin> fst ` set (bound w)))"

definition presence_ok :: "world \<Rightarrow> bool" where
  "presence_ok w =
     (sids_ok w \<and> dropped w = [] \<and> distinct (onlineUsers w) \<and>
      set (onlineUsers w) \<subseteq> open_identities w)"

definition presence_exact :: "world \<Rightarrow> bool" where
  "presence_exact w =
     (sids_ok w \<and> dropped w = [] \<and> distinct (onlineUsers w) \<and> distinct (map snd (bound w)) \<and>
      set (onlineUsers w) = open_identities w)"

text \<open>
  The events whose handlers await the store. For such an event and a store call site
  \<open>n\<close> of its handler: whether the handler, run on the given state with no failure,
  makes call \<open>n\<close> (in \<^verbatim>\<open>new message\<close> call 1 is made only when no conversation is found,
  line 93; in \<^verbatim>\<open>message-page\<close> call 1 is not made when the target is missing, line 56);
  how many events the handler has emitted when it makes call \<open>n\<close> (two in
  \<^verbatim>\<open>new message\<close> from line 122 on, one in \<^verbatim>\<open>message-page\<close> from line 67 on); whether
  the handler has neither written nor emitted anything when it makes call \<open>n\<close>; whether
  all the store writes of the handler precede call \<open>n\<close>; and how many events the handler
  emits when no call fails. \<open>emits_last\<close> are the events whose handlers emit only after
  their last store call, \<open>handled\<close> says that the event's socket is bound, and
  \<open>emitted_since\<close> is what a later state has emitted beyond an earlier one.
\<close>

definition awaits_store :: "event \<Rightarrow> bool" where
  "awaits_store e =
     (case e of
        MessagePage _ _ \<Rightarrow> True | NewMessage _ _ \<Rightarrow> True | Sidebar _ _ \<Rightarrow> True
      | Seen _ _ \<Rightarrow> True | _ \<Rightarrow> False)"

definition emits_last :: "event \<Rightarrow> bool" where
  "emits_last e = (case e of Sidebar _ _ \<Rightarrow> True | Seen _ _ \<Rightarrow> True | _ \<Rightarrow> False)"

definition makes_call :: "event \<Rightarrow> world \<Rightarrow> nat \<Rightarrow> bool" where
  "makes_call e w n =
     (case e of
        MessagePage k t \<Rightarrow> n = 0 \<or> (n = 1 \<and> UserModel_findById (w_store w) t \<noteq> None)
      | NewMessage k d \<Rightarrow>
          n < 7 \<and>
          (n = 1 \<longrightarrow> ConversationModel_findOne (w_store w) (d_sender d) (d_receiver d) = None)
      | Sidebar k i \<Rightarrow> n = 0
      | Seen k t \<Rightarrow> n < 4
      | _ \<Rightarrow> False)"

definition emits_before :: "event \<Rightarrow> nat \<Rightarrow> nat" where
  "emits_before e n =
     (case e of
        MessagePage k t \<Rightarrow> (if n = 0 then 0 else 1)
      | NewMessage k d \<Rightarrow> (if n < 5 then 0 else 2)
      | _ \<Rightarrow> 0)"

definition nothing_before :: "event \<Rightarrow> nat \<Rightarrow> bool" where
  "nothing_before e n =
     (case e of
        MessagePage k t \<Rightarrow> n = 0
      | NewMessage k d \<Rightarrow> n \<le> 1
      | Sidebar k i \<Rightarrow> n = 0
      | Seen k t \<Rightarrow> n \<le> 1
      | _ \<Rightarrow> False)"

definition writes_done :: "event \<Rightarrow> nat \<Rightarrow> bool" where
  "writes_done e n =
     (case e of
        MessagePage k t \<Rightarrow> True
      | NewMessage k d \<Rightarrow> 4 \<le> n
      | Sidebar k i \<Rightarrow> True
      | Seen k t \<Rightarrow> 2 \<le> n
      | _ \<Rightarrow> False)"

definition emits_total :: "event \<Rightarrow> world \<Rightarrow> nat" where
  "emits_total e w =
     (case e of
        MessagePage k t \<Rightarrow> (if UserModel_findById (w_store w) t = None then 0 else 2)
      | NewMessage k d \<Rightarrow> 4
      | Sidebar k i \<Rightarrow> 1
      | Seen k t \<Rightarrow> 2
      | _ \<Rightarrow> 0)"

definition handled :: "event \<Rightarrow> world \<Rightarrow> bool" where
  "handled e w =
     (awaits_store e \<and>
      (case socket_of e of None \<Rightarrow> False | Some k \<Rightarrow> map_of (bound w) k \<noteq> None))"

definition emitted_since :: "world \<Rightarrow> world \<Rightarrow> emission list" where
  "emitted_since w w' = drop (length (emitted w)) (emitted w')"

text \<open>
  The store after a \<^verbatim>\<open>new message\<close> handler whose store calls all succeed: the
  conversation the handler resolves (lines 85-99), and the store once the message is
  saved and pushed (lines 101-111).
\<close>

definition nm_resolved :: "new_message_data \<Rightarrow> store \<Rightarrow> conversation \<times> store" where
  "nm_resolved d s =
     (case ConversationModel_findOne s (d_sender d) (d_receiver d) of
        Some c \<Rightarrow> (c, s)
      | None \<Rightarrow> ConversationModel_save (d_sender d) (d_receiver d) s)"

definition nm_stored :: "new_message_data \<Rightarrow> store \<Rightarrow> store" where
  "nm_stored d s =
     (let (c, s1) = nm_resolved d s; (m, s2) = MessageModel_save d s1
      in ConversationModel_findByIdAndUpdate (c_id c) (m_id m) s2)"

section \<open>A small deployment\<close>

definition alice :: user where
  "alice = \<lparr>u_id = ''A'', u_name = ''Alice'', u_email = ''a@x'', u_profile_pic = ''a.png'',
             u_password = ''pa''\<rparr>"

definition bob :: user where
  "bob = \<lparr>u_id = ''B'', u_name = ''Bob'', u_email = ''b@x'', u_profile_pic = ''b.png'',
           u_password = ''pb''\<rparr>"

definition verifier :: "string \<Rightarrow> error + user option" where
  "verifier t =
     (if t = ''tokA'' then Inr (Some alice)
      else if t = ''tokB'' then Inr (Some bob)
      else if t = ''boom'' then Inl AuthError
      else Inr None)"

definition hi :: new_message_data where
  "hi = \<lparr>d_sender = ''A'', d_receiver = ''B'', d_text = Some ''hi'', d_imageUrl = None,
          d_videoUrl = None, d_msgByUserId = ''A''\<rparr>"

definition yo :: new_message_data where
  "yo = \<lparr>d_sender = ''B'', d_receiver = ''A'', d_text = Some ''yo'', d_imageUrl = None,
          d_videoUrl = None, d_msgByUserId = ''B''\<rparr>"

definition both_online :: world where
  "both_online =
     \<lparr>w_store = empty_store [alice, bob], onlineUsers = [''A'', ''B''],
      bound = [(0, ''A''), (1, ''B'')], closed = [], next_sid = 2,
      emitted = [(ToAll, OnlineUser [''A'']), (ToAll, OnlineUser [''A'', ''B''])],
      pending = [], dropped = []\<rparr>"

definition two_tabs :: "(fault \<times> event) list" where
  "two_tabs = [(None, Connect (Some ''tokA'')), (None, Verified 0),
               (None, Connect (Some ''tokA'')), (None, Verified 1), (None, Disconnect 0)]"

definition come_and_go :: "(fault \<times> event) list" where
  "come_and_go = [(None, Connect (Some ''tokA'')), (None, Connect (Some ''tokB'')),
                  (None, Verified 1), (None, Verified 0), (None, Connect None),
                  (None, Disconnect 0), (None, Connect (Some ''tokA'')), (None, Verified 3)]"

definition early_close :: "(fault \<times> event) list" where
  "early_close = [(None, Connect (Some ''tokA'')), (None, Disconnect 0), (None, Verified 0),
                  (None, Disconnect 0)]"

definition after_chat :: world where
  "after_chat = on_new_message None (1, ''B'') yo (on_new_message None (0, ''A'') hi both_online)"

definition ahoy :: new_message_data where
  "ahoy = \<lparr>d_sender = ''A'', d_receiver = ''C'', d_text = Some ''ahoy'', d_imageUrl = None,
            d_videoUrl = None, d_msgByUserId = ''A''\<rparr>"

definition two_threads :: world where
  "two_threads = on_new_message None (0, ''A'') ahoy (on_new_message None (0, ''A'') hi both_online)"

section \<open>Frame and prefix lemmas\<close>

lemma emit_frame [simp]:
  "w_store (emit t p w) = w_store w" "onlineUsers (emit t p w) = onlineUsers w"
  "bound (emit t p w) = bound w" "closed (emit t p w) = closed w"
  "next_sid (emit t p w) = next_sid w" "emitted (emit t p w) = emitted w @ [(t, p)]"
  by (simp_all add: emit_def)

lemma nm_fanout_frame [simp]:
  "w_store (nm_fanout f d i w) = w_store w" "onlineUsers (nm_fanout f d i w) = onlineUsers w"
  "bound (nm_fanout f d i w) = bound w" "closed (nm_fanout f d i w) = closed w"
  "next_sid (nm_fanout f d i w) = next_sid w"
  by (simp_all add: nm_fanout_def Let_def)

lemma nm_continue_frame [simp]:
  "onlineUsers (nm_continue f sess d found w) = onlineUsers w"
  "bound (nm_continue f sess d found w) = bound w"
  "closed (nm_continue f sess d found w) = closed w"
  "next_sid (nm_continue f sess d found w) = next_sid w"
  by (simp_all add: nm_continue_def Let_def split: option.split prod.split)

lemma on_new_message_frame [simp]:
  "onlineUsers (on_new_message f sess d w) = onlineUsers w"
  "bound (on_new_message f sess d w) = bound w"
  "closed (on_new_message f sess d w) = closed w"
  "next_sid (on_new_message f sess d w) = next_sid w"
  by (simp_all add: on_new_message_def)

lemma on_message_page_frame [simp]:
  "w_store (on_message_page f sess t w) = w_store w"
  "onlineUsers (on_message_page f sess t w) = onlineUsers w"
  "bound (on_message_page f sess t w) = bound w"
  "closed (on_message_page f sess t w) = closed w"
  "next_sid (on_message_page f sess t w) = next_sid w"
  by (simp_all add: on_message_page_def Let_def split: option.split)

lemma on_sidebar_frame [simp]:
  "w_store (on_sidebar f sess i w) = w_store w"
  "onlineUsers (on_sidebar f sess i w) = onlineUsers w"
  "bound (on_sidebar f sess i w) = bound w"
  "closed (on_sidebar f sess i w) = closed w"
  "next_sid (on_sidebar f sess i w) = next_sid w"
  by (simp_all add: on_sidebar_def)

lemma on_seen_frame [simp]:
  "onlineUsers (on_seen f sess t w) = onlineUsers w"
  "bound (on_seen f sess t w) = bound w"
  "closed (on_seen f sess t w) = closed w"
  "next_sid (on_seen f sess t w) = next_sid w"
  by (simp_all add: on_seen_def Let_def)

lemma sockets_frame [simp]:
  "pending (emit t p w) = pending w" "dropped (emit t p w) = dropped w"
  "pending (nm_fanout f d i w) = pending w" "dropped (nm_fanout f d i w) = dropped w"
  "pending (on_message_page f sess x w) = pending w"
  "dropped (on_message_page f sess x w) = dropped w"
  "pending (on_sidebar f sess x w) = pending w" "dropped (on_sidebar f sess x w) = dropped w"
  "pending (on_seen f sess x w) = pending w" "dropped (on_seen f sess x w) = dropped w"
  by (simp_all add: emit_def nm_fanout_def on_message_page_def on_sidebar_def on_seen_def
      Let_def split: option.split)

lemma sockets_frame_new_message [simp]:
  "pending (nm_continue f sess d found w) = pending w"
  "dropped (nm_continue f sess d found w) = dropped w"
  "pending (on_new_message f sess d w) = pending w"
  "dropped (on_new_message f sess d w) = dropped w"
  by (simp_all add: on_new_message_def nm_continue_def Let_def split: option.split prod.split)

lemma sockets_frame_connection [simp]:
  "pending (on_connection v k tok w) = pending w" "dropped (on_connection v k tok w) = dropped w"
  "pending (on_disconnect sess w) = pending w" "dropped (on_disconnect sess w) = dropped w"
  by (simp_all add: on_connection_def on_disconnect_def socket_disconnect_def emit_def Let_def
      split: option.split sum.split)

lemma nm_fanout_extends: "prefix (emitted w) (emitted (nm_fanout f d i w))"
  by (simp add: nm_fanout_def Let_def)

lemma nm_fanout_prefix:
  "prefix (emitted (nm_fanout f d i w)) (emitted (nm_fanout None d i w))"
  by (simp add: nm_fanout_def Let_def)


lemma emitted_store_update [simp]: "emitted (w\<lparr>w_store := s\<rparr>) = emitted w"
  by simp

lemma nm_continue_extends: "prefix (emitted w) (emitted (nm_continue f sess d found w))"
proof (cases "nm_resolve f d found (w_store w)")
  case None
  then show ?thesis by (simp add: nm_continue_def)
next
  case (Some r)
  obtain c s1 where r: "r = (c, s1)" by (cases r)
  obtain m s2 where m: "MessageModel_save d s1 = (m, s2)" by (cases "MessageModel_save d s1")
  have "prefix (emitted w)
          (emitted (nm_fanout f d (c_id c)
             (w\<lparr>w_store := ConversationModel_findByIdAndUpdate (c_id c) (m_id m) s2\<rparr>)))"
    using nm_fanout_extends [of "w\<lparr>w_store := ConversationModel_findByIdAndUpdate (c_id c) (m_id m) s2\<rparr>" f d "c_id c"]
    by simp
  then show ?thesis
    by (simp add: nm_continue_def Some r m)
qed

lemma nm_resolve_fault:
  "nm_resolve f d found s = None \<or> nm_resolve f d found s = nm_resolve None d found s"
  by (simp add: nm_resolve_def split: option.split)

lemma nm_continue_prefix:
  "prefix (emitted (nm_continue f sess d found w)) (emitted (nm_continue None sess d found w))"
proof (cases "nm_resolve f d found (w_store w)")
  case None
  then show ?thesis
    using nm_continue_extends [of w None sess d found] by (simp add: nm_continue_def)
next
  case (Some r)
  with nm_resolve_fault [of f d found "w_store w"]
  have same: "nm_resolve None d found (w_store w) = Some r" by simp
  obtain c s1 where r: "r = (c, s1)" by (cases r)
  obtain m s2 where m: "MessageModel_save d s1 = (m, s2)" by (cases "MessageModel_save d s1")
  let ?w3 = "w\<lparr>w_store := ConversationModel_findByIdAndUpdate (c_id c) (m_id m) s2\<rparr>"
  have full: "nm_continue None sess d found w = nm_fanout None d (c_id c) ?w3"
    by (simp add: nm_continue_def same r m)
  have ext: "prefix (emitted w) (emitted (nm_fanout None d (c_id c) ?w3))"
    using nm_fanout_extends [of ?w3 None d "c_id c"] by simp
  show ?thesis
    unfolding full
    using ext nm_fanout_prefix [of f d "c_id c" ?w3]
    by (simp add: nm_continue_def Some r m)
qed


lemma on_new_message_prefix:
  "prefix (emitted w) (emitted (on_new_message f sess d w)) \<and>
   prefix (emitted (on_new_message f sess d w)) (emitted (on_new_message None sess d w))"
  using nm_continue_extends nm_continue_prefix by (simp add: on_new_message_def)

lemma on_message_page_prefix:
  "prefix (emitted w) (emitted (on_message_page f sess t w)) \<and>
   prefix (emitted (on_message_page f sess t w)) (emitted (on_message_page None sess t w))"
  by (simp add: on_message_page_def Let_def split: option.split)

lemma on_sidebar_all_or_nothing:
  "emitted (on_sidebar f sess i w) = emitted w \<or>
   emitted (on_sidebar f sess i w) = emitted (on_sidebar None sess i w)"
  by (simp add: on_sidebar_def)

lemma on_seen_all_or_nothing:
  "emitted (on_seen f sess t w) = emitted w \<or>
   emitted (on_seen f sess t w) = emitted (on_seen None sess t w)"
  by (simp add: on_seen_def Let_def)

lemma on_sidebar_prefix:
  "prefix (emitted w) (emitted (on_sidebar f sess i w)) \<and>
   prefix (emitted (on_sidebar f sess i w)) (emitted (on_sidebar None sess i w))"
  by (simp add: on_sidebar_def)

lemma on_seen_prefix:
  "prefix (emitted w) (emitted (on_seen f sess t w)) \<and>
   prefix (emitted (on_seen f sess t w)) (emitted (on_seen None sess t w))"
  by (simp add: on_seen_def Let_def)

lemma on_disconnect_extends: "prefix (emitted w) (emitted (on_disconnect sess w))"
  by (simp add: on_disconnect_def Let_def)

lemma on_connection_extends: "prefix (emitted w) (emitted (on_connection v k tok w))"
  by (simp add: on_connection_def socket_disconnect_def Let_def split: option.split sum.split)

section \<open>Marking messages as seen\<close>

lemma conversations_updateMany [simp]:
  "conversations (MessageModel_updateMany ids a s) = conversations s"
  by (simp add: MessageModel_updateMany_def)

lemma findOne_updateMany [simp]:
  "ConversationModel_findOne (MessageModel_updateMany ids a s) x y = ConversationModel_findOne s x y"
  by (simp add: ConversationModel_findOne_def)

lemma seen_ids_updateMany [simp]:
  "seen_ids (MessageModel_updateMany ids a s) x y = seen_ids s x y"
  by (simp add: seen_ids_def)

lemma mark_seen_idem: "mark_seen ids a (mark_seen ids a m) = mark_seen ids a m"
  by (simp add: mark_seen_def)

lemma updateMany_idem:
  "MessageModel_updateMany ids a (MessageModel_updateMany ids a s) = MessageModel_updateMany ids a s"
  by (simp add: MessageModel_updateMany_def mark_seen_idem)

lemma modifiedCount_after:
  "modifiedCount ids a (MessageModel_updateMany ids a s) = 0"
  by (auto simp: modifiedCount_def MessageModel_updateMany_def filter_empty_conv mark_seen_def)

lemma on_seen_store:
  "w_store (on_seen None (k, userId) t w) =
     MessageModel_updateMany (seen_ids (w_store w) userId t) t (w_store w)"
  by (simp add: on_seen_def Let_def)

section \<open>The successful run of the new-message handler\<close>

lemma on_new_message_ok:
  "on_new_message None sess d w =
     nm_fanout None d (c_id (fst (nm_resolved d (w_store w))))
       (w\<lparr>w_store := nm_stored d (w_store w)\<rparr>)"
  by (simp add: on_new_message_def nm_continue_def nm_resolve_def nm_resolved_def nm_stored_def
      Let_def split: option.split prod.split)

lemma on_new_message_store: "w_store (on_new_message None sess d w) = nm_stored d (w_store w)"
  by (simp add: on_new_message_ok)

lemma nm_stored_messages:
  "messages_coll (nm_stored d s) =
     messages_coll s @
       [\<lparr>m_id = next_id (snd (nm_resolved d s)), m_text = d_text d, m_imageUrl = d_imageUrl d,
         m_videoUrl = d_videoUrl d, m_msgByUserId = d_msgByUserId d, m_seen = False\<rparr>]"
  by (simp add: nm_stored_def nm_resolved_def MessageModel_save_def ConversationModel_save_def
      ConversationModel_findByIdAndUpdate_def Let_def split: option.split prod.split)

section \<open>Ordering by recency\<close>

lemma set_newest_first [simp]: "set (newest_first cs) = set cs"
  by (simp add: newest_first_def)

lemma length_newest_first [simp]: "length (newest_first cs) = length cs"
  by (simp add: newest_first_def)

lemma sorted_newest_first:
  "sorted_wrt (\<lambda>a b. c_updatedAt b \<le> c_updatedAt a) (newest_first cs)"
proof -
  have "sorted (map (\<lambda>c. - int (c_updatedAt c)) (newest_first cs))"
    by (simp add: newest_first_def)
  then have "sorted_wrt (\<lambda>a b. - int (c_updatedAt a) \<le> - int (c_updatedAt b)) (newest_first cs)"
    by (simp add: sorted_map)
  then show ?thesis
    by (rule sorted_wrt_mono_rel [rotated]) simp
qed

lemma newest_first_head:
  assumes "cs \<noteq> []"
  obtains y ys where "newest_first cs = y # ys" "y \<in> set cs"
    "\<And>z. z \<in> set cs \<Longrightarrow> c_updatedAt z \<le> c_updatedAt y"
proof -
  from assms have "newest_first cs \<noteq> []"
    by (metis length_newest_first length_0_conv)
  then obtain y ys where eq: "newest_first cs = y # ys"
    by (cases "newest_first cs") auto
  have y: "y \<in> set cs"
    using eq by (metis list.set_intros(1) set_newest_first)
  have "\<And>z. z \<in> set cs \<Longrightarrow> c_updatedAt z \<le> c_updatedAt y"
  proof -
    fix z assume "z \<in> set cs"
    then have "z \<in> set (y # ys)" using eq by (metis set_newest_first)
    then show "c_updatedAt z \<le> c_updatedAt y"
      using sorted_newest_first [of cs] by (auto simp: eq)
  qed
  with eq y show ?thesis by (rule that)
qed

lemma find_between_SomeD:
  assumes "ConversationModel_findOne s a b = Some c"
  shows "c \<in> set (conversations s)" "between a b c"
  using assms by (auto simp: ConversationModel_findOne_def find_Some_iff)

lemma between_involves: "between a b c \<Longrightarrow> involves a c \<and> involves b c"
  by (auto simp: between_def involves_def)

lemma involves_push [simp]: "involves x (push_message i mid t c) = involves x c"
  by (simp add: involves_def push_message_def)

lemma c_id_push [simp]: "c_id (push_message i mid t c) = c_id c"
  by (simp add: push_message_def)

lemma pushed_row_first:
  assumes late: "\<And>z. z \<in> set cs \<Longrightarrow> c_updatedAt z \<le> t"
    and c: "c \<in> set cs" "involves x c"
  shows "\<exists>rest. map c_id (newest_first (filter (involves x) (map (push_message (c_id c) mid (Suc t)) cs)))
           = c_id c # rest"
proof -
  let ?cs' = "filter (involves x) (map (push_message (c_id c) mid (Suc t)) cs)"
  have mem: "push_message (c_id c) mid (Suc t) c \<in> set ?cs'"
    using c by simp
  then have "?cs' \<noteq> []" by (metis empty_iff empty_set)
  then obtain y ys where eq: "newest_first ?cs' = y # ys" and y: "y \<in> set ?cs'"
    and top: "\<And>z. z \<in> set ?cs' \<Longrightarrow> c_updatedAt z \<le> c_updatedAt y"
    by (rule newest_first_head) blast
  have "Suc t \<le> c_updatedAt y"
    using top [OF mem] by (simp add: push_message_def)
  moreover from y obtain z where z: "z \<in> set cs" "y = push_message (c_id c) mid (Suc t) z"
    by auto
  ultimately have "c_id y = c_id c"
    using late [OF z(1)] by (auto simp: push_message_def split: if_splits)
  then show ?thesis
    by (simp add: eq)
qed

lemma nm_stored_found:
  assumes "ConversationModel_findOne s (d_sender d) (d_receiver d) = Some c"
  shows "conversations (nm_stored d s) =
           map (push_message (c_id c) (next_id s) (Suc (clock s))) (conversations s)"
  using assms
  by (simp add: nm_stored_def nm_resolved_def MessageModel_save_def
      ConversationModel_findByIdAndUpdate_def Let_def)

lemma store_wf_clock:
  "store_wf s \<Longrightarrow> z \<in> set (conversations s) \<Longrightarrow> c_updatedAt z \<le> clock s"
  by (auto simp: store_wf_def list_all_iff)

section \<open>Well-formed stores\<close>

lemma store_wf_conv_save:
  assumes "store_wf s"
  shows "store_wf (snd (ConversationModel_save a b s))"
  using assms
  by (fastforce simp: store_wf_def ConversationModel_save_def Let_def list_all_iff)

lemma store_wf_msg_save:
  assumes "store_wf s"
  shows "store_wf (snd (MessageModel_save d s))"
  using assms
  by (fastforce simp: store_wf_def MessageModel_save_def Let_def list_all_iff)

lemma c_id_push_comp [simp]: "c_id \<circ> push_message i mid t = c_id"
  by (rule ext) simp

lemma store_wf_push:
  assumes "store_wf s" "mid < next_id s"
  shows "store_wf (ConversationModel_findByIdAndUpdate i mid s)"
  using assms
  by (auto simp: store_wf_def ConversationModel_findByIdAndUpdate_def list_all_iff
      push_message_def)

lemma m_id_mark_seen [simp]: "m_id (mark_seen ids a m) = m_id m"
  by (simp add: mark_seen_def)

lemma m_id_mark_comp [simp]: "m_id \<circ> mark_seen ids a = m_id"
  by (rule ext) simp

lemma store_wf_updateMany:
  assumes "store_wf s"
  shows "store_wf (MessageModel_updateMany ids a s)"
  using assms
  by (auto simp: store_wf_def MessageModel_updateMany_def list_all_iff mark_seen_def)

lemma store_wf_nm_resolve:
  assumes "store_wf s" "nm_resolve f d found s = Some (c, s1)"
  shows "store_wf s1"
  using assms store_wf_conv_save [of s "d_sender d" "d_receiver d"]
  by (auto simp: nm_resolve_def split: option.splits if_splits)

lemma next_id_msg_save: "m_id (fst (MessageModel_save d s)) < next_id (snd (MessageModel_save d s))"
  by (simp add: MessageModel_save_def Let_def)

lemma store_wf_nm_continue:
  assumes "store_wf (w_store w)"
  shows "store_wf (w_store (nm_continue f sess d found w))"
proof (cases "nm_resolve f d found (w_store w)")
  case None
  then show ?thesis using assms by (simp add: nm_continue_def)
next
  case (Some r)
  obtain c s1 where r: "r = (c, s1)" by (cases r)
  obtain m s2 where m: "MessageModel_save d s1 = (m, s2)" by (cases "MessageModel_save d s1")
  have wf1: "store_wf s1"
    using assms Some r by (auto intro: store_wf_nm_resolve)
  have wf2: "store_wf s2"
    using store_wf_msg_save [OF wf1, of d] m by simp
  have "m_id m < next_id s2"
    using next_id_msg_save [of d s1] m by simp
  with wf2 have "store_wf (ConversationModel_findByIdAndUpdate (c_id c) (m_id m) s2)"
    by (rule store_wf_push)
  then show ?thesis
    using wf1 wf2 by (simp add: nm_continue_def Some r m)
qed

lemma store_wf_on_new_message:
  "store_wf (w_store w) \<Longrightarrow> store_wf (w_store (on_new_message f sess d w))"
  by (simp add: on_new_message_def store_wf_nm_continue)

lemma store_wf_on_seen:
  "store_wf (w_store w) \<Longrightarrow> store_wf (w_store (on_seen f sess t w))"
  by (simp add: on_seen_def Let_def store_wf_updateMany)

lemma on_disconnect_store [simp]: "w_store (on_disconnect sess w) = w_store w"
  by (simp add: on_disconnect_def Let_def)

lemma on_connection_store [simp]: "w_store (on_connection v k tok w) = w_store w"
  by (simp add: on_connection_def socket_disconnect_def Let_def split: option.split sum.split)

lemma store_wf_dispatch:
  assumes "store_wf (w_store w)"
  shows "store_wf (w_store (dispatch v e w))"
proof -
  obtain f ev where e: "e = (f, ev)" by (cases e)
  show ?thesis
    using assms
    by (cases ev)
      (simp_all add: e on_socket_def store_wf_on_new_message store_wf_on_seen
        split: option.split)
qed

lemma store_wf_step: "store_wf (w_store w) \<Longrightarrow> store_wf (w_store (step v e w))"
  by (simp add: step_def store_wf_dispatch)

lemma store_wf_run: "store_wf (w_store w) \<Longrightarrow> store_wf (w_store (run v es w))"
  by (induction es arbitrary: w) (simp_all add: store_wf_step)

lemma store_wf_start: "store_wf (w_store (start us))"
  by (simp add: start_def empty_store_def store_wf_def)

section \<open>Reading the conversation back\<close>

lemma find_snoc:
  "find P (xs @ [y]) = (case find P xs of None \<Rightarrow> (if P y then Some y else None) | Some x \<Rightarrow> Some x)"
  by (induction xs) simp_all

lemma map_filter_snoc:
  "List.map_filter f (xs @ [y]) = List.map_filter f xs @ (case f y of None \<Rightarrow> [] | Some v \<Rightarrow> [v])"
  by (induction xs) (simp_all split: option.split)

lemma map_filter_eq:
  "(\<And>x. x \<in> set xs \<Longrightarrow> f x = g x) \<Longrightarrow> List.map_filter f xs = List.map_filter g xs"
  by (induction xs) (simp_all split: option.split)

lemma populate_snoc:
  assumes ids: "\<And>i. i \<in> set ids \<Longrightarrow> i \<noteq> m_id m"
    and ms: "\<And>x. x \<in> set ms \<Longrightarrow> m_id x \<noteq> m_id m"
  shows "List.map_filter (\<lambda>i. find (\<lambda>x. m_id x = i) (ms @ [m])) (ids @ [m_id m]) =
         List.map_filter (\<lambda>i. find (\<lambda>x. m_id x = i) ms) ids @ [m]"
proof -
  have "find (\<lambda>x. m_id x = m_id m) ms = None"
    using ms by (auto simp: find_None_iff)
  then have last: "find (\<lambda>x. m_id x = m_id m) (ms @ [m]) = Some m"
    by (simp add: find_snoc)
  have "List.map_filter (\<lambda>i. find (\<lambda>x. m_id x = i) (ms @ [m])) ids =
        List.map_filter (\<lambda>i. find (\<lambda>x. m_id x = i) ms) ids"
    using ids by (intro map_filter_eq) (auto simp: find_snoc split: option.split)
  then show ?thesis
    by (simp add: map_filter_snoc last)
qed

lemma find_pushed:
  assumes "distinct (map c_id cs)" "c \<in> set cs"
  shows "find (\<lambda>x. c_id x = c_id c) (map (push_message (c_id c) mid t) cs) =
         Some (push_message (c_id c) mid t c)"
  using assms
proof (induction cs)
  case Nil
  then show ?case by simp
next
  case (Cons x cs)
  show ?case
  proof (cases "c_id x = c_id c")
    case True
    have "x = c"
    proof (rule ccontr)
      assume "x \<noteq> c"
      with Cons.prems(2) have "c \<in> set cs" by simp
      then have "c_id c \<in> set (map c_id cs)" by simp
      with True Cons.prems(1) show False by simp
    qed
    then show ?thesis by simp
  next
    case False
    with Cons show ?thesis by auto
  qed
qed

lemma nm_resolved_facts:
  assumes "store_wf s" "nm_resolved d s = (c, s1)"
  shows "store_wf s1" "c \<in> set (conversations s1)" "between (d_sender d) (d_receiver d) c"
    "messages_coll s1 = messages_coll s" "next_id s \<le> next_id s1"
    "c_messages c = (case ConversationModel_findOne s (d_sender d) (d_receiver d) of
                       None \<Rightarrow> [] | Some c0 \<Rightarrow> c_messages c0)"
proof -
  show "store_wf s1"
    using assms store_wf_conv_save [of s "d_sender d" "d_receiver d"]
    by (auto simp: nm_resolved_def split: option.splits)
  show "c \<in> set (conversations s1)"
    using assms(2)
    by (auto simp: nm_resolved_def ConversationModel_save_def Let_def
        dest: find_between_SomeD split: option.splits)
  show "between (d_sender d) (d_receiver d) c"
    using assms(2)
    by (auto simp: nm_resolved_def ConversationModel_save_def Let_def between_def
        dest: find_between_SomeD split: option.splits)
  show "messages_coll s1 = messages_coll s"
    using assms(2)
    by (auto simp: nm_resolved_def ConversationModel_save_def Let_def split: option.splits)
  show "next_id s \<le> next_id s1"
    using assms(2)
    by (auto simp: nm_resolved_def ConversationModel_save_def Let_def split: option.splits)
  show "c_messages c = (case ConversationModel_findOne s (d_sender d) (d_receiver d) of
                       None \<Rightarrow> [] | Some c0 \<Rightarrow> c_messages c0)"
    using assms(2)
    by (auto simp: nm_resolved_def ConversationModel_save_def Let_def split: option.splits)
qed

section \<open>One row per pair when events are handled in turn\<close>

text \<open>
  A \<^verbatim>\<open>new message\<close> handler that runs from its \<^verbatim>\<open>findOne\<close> to its end without another
  handler in between keeps at most one conversation row per unordered pair, whichever
  store call fails.
\<close>

lemma between_push [simp]: "between a b (push_message i mid t c) = between a b c"
  by (simp add: between_def push_message_def)

lemma rows_between_push:
  "rows_between (ConversationModel_findByIdAndUpdate i mid s) a b =
     map (push_message i mid (Suc (clock s))) (rows_between s a b)"
  by (simp add: rows_between_def ConversationModel_findByIdAndUpdate_def filter_map o_def)

lemma rows_between_msg_save:
  "rows_between (snd (MessageModel_save d s)) a b = rows_between s a b"
  by (simp add: rows_between_def MessageModel_save_def Let_def)

lemma rows_between_conv_save:
  assumes one: "\<And>a b. length (rows_between s a b) \<le> 1"
    and none: "ConversationModel_findOne s x y = None"
  shows "length (rows_between (snd (ConversationModel_save x y s)) a b) \<le> 1"
proof (cases "(x = a \<and> y = b) \<or> (x = b \<and> y = a)")
  case True
  then have "between a b = between x y"
    by (auto simp: between_def fun_eq_iff)
  moreover have "filter (between x y) (conversations s) = []"
    using none by (auto simp: ConversationModel_findOne_def find_None_iff filter_empty_conv)
  ultimately show ?thesis
    by (simp add: rows_between_def ConversationModel_save_def Let_def)
next
  case False
  then show ?thesis
    using one [of a b]
    by (auto simp: rows_between_def ConversationModel_save_def Let_def between_def)
qed

lemma sequential_new_message_one_row:
  assumes one: "\<And>a b. length (rows_between (w_store w) a b) \<le> 1"
  shows "length (rows_between (w_store (on_new_message f sess d w)) a b) \<le> 1"
proof -
  let ?found = "ConversationModel_findOne (w_store w) (d_sender d) (d_receiver d)"
  show ?thesis
  proof (cases "nm_resolve f d ?found (w_store w)")
    case None
    then show ?thesis
      using one by (simp add: on_new_message_def nm_continue_def)
  next
    case (Some r)
    obtain c s1 where r: "r = (c, s1)" by (cases r)
    obtain m s2 where m: "MessageModel_save d s1 = (m, s2)" by (cases "MessageModel_save d s1")
    have s1: "length (rows_between s1 a b) \<le> 1"
    proof (cases ?found)
      case None
      with Some r have "s1 = snd (ConversationModel_save (d_sender d) (d_receiver d) (w_store w))"
        by (auto simp: nm_resolve_def split: if_splits)
      then show ?thesis
        using rows_between_conv_save [OF one None] by simp
    next
      case (Some c0)
      with \<open>nm_resolve f d ?found (w_store w) = Some r\<close> r have "s1 = w_store w"
        by (simp add: nm_resolve_def)
      then show ?thesis using one by simp
    qed
    have s2: "length (rows_between s2 a b) \<le> 1"
      using s1 rows_between_msg_save [of d s1 a b] m by simp
    have s3: "length (rows_between (ConversationModel_findByIdAndUpdate (c_id c) (m_id m) s2) a b) \<le> 1"
      using s2 by (simp add: rows_between_push)
    show ?thesis
      using one s1 s2 s3 by (simp add: on_new_message_def nm_continue_def Some r m)
  qed
qed

section \<open>Presence invariants\<close>

lemma set_set_add: "set (set_add x xs) = insert x (set xs)"
  by (auto simp: set_add_def)

lemma distinct_set_add: "distinct xs \<Longrightarrow> distinct (set_add x xs)"
  by (simp add: set_add_def)

lemma set_set_delete: "set (set_delete x xs) = set xs - {x}"
  by (auto simp: set_delete_def)

lemma distinct_set_delete: "distinct xs \<Longrightarrow> distinct (set_delete x xs)"
  by (simp add: set_delete_def)

lemma on_socket_cases:
  assumes "P w" and "\<And>u. map_of (bound w) k = Some u \<Longrightarrow> P (h (k, u) w)"
  shows "P (on_socket k h w)"
  using assms by (simp add: on_socket_def split: option.split)

lemma on_connection_cases:
  "on_connection v k tok w = socket_disconnect k w \<or>
   (\<exists>t u. tok = Some t \<and> t \<noteq> [] \<and> v t = Inr (Some u) \<and>
      on_connection v k tok w =
        emit ToAll (OnlineUser (set_add (u_id u) (onlineUsers w)))
          (w\<lparr>bound := bound w @ [(k, u_id u)],
             onlineUsers := set_add (u_id u) (onlineUsers w)\<rparr>))"
  by (simp add: on_connection_def Let_def split: option.split sum.split)

lemma open_identities_live: "dropped w = [] \<Longrightarrow> open_identities w = snd ` set (bound w)"
  by (simp add: open_identities_def)

lemma arrives_live: "dropped w = [] \<Longrightarrow> arrives e w"
  by (simp add: arrives_def split: option.split)

subsection \<open>No duplicates, in every trace\<close>

lemma distinct_online_connection:
  "distinct (onlineUsers w) \<Longrightarrow> distinct (onlineUsers (on_connection v k tok w))"
  using on_connection_cases [of v k tok w]
  by (auto simp: socket_disconnect_def distinct_set_add)

lemma distinct_online_disconnect:
  "distinct (onlineUsers w) \<Longrightarrow> distinct (onlineUsers (on_disconnect sess w))"
  by (simp add: on_disconnect_def Let_def distinct_set_delete)

lemma distinct_online_dispatch:
  assumes "distinct (onlineUsers w)"
  shows "distinct (onlineUsers (dispatch v e w))"
proof -
  obtain f ev where e: "e = (f, ev)" by (cases e)
  show ?thesis
  proof (cases ev)
    case (Connect tok)
    then show ?thesis
      using assms e by (simp add: distinct_online_connection)
  next
    case (Verified k)
    then show ?thesis
      using assms e by (simp add: distinct_online_connection split: option.split)
  next
    case (Disconnect k)
    then show ?thesis
      using assms e
      by (simp add: on_socket_def distinct_online_disconnect split: option.split)
  qed (use assms e in \<open>simp_all add: on_socket_def split: option.split\<close>)
qed

lemma distinct_online_step:
  "distinct (onlineUsers w) \<Longrightarrow> distinct (onlineUsers (step v e w))"
  by (simp add: step_def distinct_online_dispatch)

lemma distinct_online_run:
  "distinct (onlineUsers w) \<Longrightarrow> distinct (onlineUsers (run v es w))"
  by (induction es arbitrary: w) (simp_all add: distinct_online_step)

subsection \<open>Traces in which no socket closes during verification\<close>

lemma presence_ok_iff:
  "presence_ok w \<longleftrightarrow>
     sids_ok w \<and> dropped w = [] \<and> distinct (onlineUsers w) \<and>
     set (onlineUsers w) \<subseteq> snd ` set (bound w)"
  by (cases "dropped w = []") (simp_all add: presence_ok_def open_identities_def)

lemma presence_exact_iff:
  "presence_exact w \<longleftrightarrow>
     sids_ok w \<and> dropped w = [] \<and> distinct (onlineUsers w) \<and> distinct (map snd (bound w)) \<and>
     set (onlineUsers w) = snd ` set (bound w)"
  by (cases "dropped w = []") (simp_all add: presence_exact_def open_identities_def)

lemma presence_ok_frame:
  assumes "presence_ok w" "onlineUsers w' = onlineUsers w" "bound w' = bound w"
    "next_sid w' = next_sid w" "pending w' = pending w" "dropped w' = dropped w"
  shows "presence_ok w'"
  using assms by (simp add: presence_ok_iff sids_ok_def)

lemma presence_ok_on_socket:
  assumes "presence_ok w" and "\<And>u. map_of (bound w) k = Some u \<Longrightarrow> presence_ok (h (k, u) w)"
  shows "presence_ok (on_socket k h w)"
  using assms by (rule on_socket_cases)

lemma presence_ok_joined:
  assumes ok: "presence_ok w" and k: "k < next_sid w" "k \<notin> fst ` set (bound w)"
    "k \<notin> fst ` set (pending w)"
  shows "presence_ok (on_connection v k tok w)"
  using on_connection_cases [of v k tok w]
proof (elim disjE exE conjE)
  assume "on_connection v k tok w = socket_disconnect k w"
  then show ?thesis
    using ok by (simp add: presence_ok_iff sids_ok_def socket_disconnect_def)
next
  fix t and u :: user
  assume eq: "on_connection v k tok w =
      emit ToAll (OnlineUser (set_add (u_id u) (onlineUsers w)))
        (w\<lparr>bound := bound w @ [(k, u_id u)],
           onlineUsers := set_add (u_id u) (onlineUsers w)\<rparr>)"
  show ?thesis
    using ok k
    by (auto simp: eq presence_ok_iff sids_ok_def set_set_add
        distinct_set_add)
qed

lemma presence_ok_connect:
  assumes "presence_ok w"
  shows "presence_ok (dispatch v (f, Connect tok) w)"
proof (cases "awaits_verifier tok")
  case True
  then show ?thesis
    using assms by (auto simp: presence_ok_iff sids_ok_def)
next
  case False
  have "presence_ok (w\<lparr>next_sid := Suc (next_sid w)\<rparr>)"
    using assms by (auto simp: presence_ok_iff sids_ok_def)
  moreover have "next_sid w \<notin> fst ` set (bound w)" "next_sid w \<notin> fst ` set (pending w)"
    using assms by (auto simp: presence_ok_iff sids_ok_def)
  ultimately have "presence_ok
      (on_connection v (next_sid w) tok (w\<lparr>next_sid := Suc (next_sid w)\<rparr>))"
    by (intro presence_ok_joined) simp_all
  with False show ?thesis by simp
qed

lemma pending_sid:
  assumes "sids_ok w" "(k, t) \<in> set (pending w)"
  shows "k < next_sid w" "k \<notin> fst ` set (bound w)"
proof -
  from assms(1) have "\<forall>p\<in>set (pending w). fst p < next_sid w \<and> fst p \<notin> fst ` set (bound w)"
    by (simp add: sids_ok_def)
  from this assms(2) have "fst (k, t) < next_sid w \<and> fst (k, t) \<notin> fst ` set (bound w)"
    by (rule bspec)
  then show "k < next_sid w" "k \<notin> fst ` set (bound w)"
    by simp_all
qed

lemma sids_ok_unpend:
  assumes "sids_ok w"
  shows "sids_ok (w\<lparr>pending := filter (\<lambda>p. fst p \<noteq> k) (pending w)\<rparr>)"
  using assms by (simp add: sids_ok_def)

lemma not_pending_after: "k \<notin> fst ` set (filter (\<lambda>p. fst p \<noteq> k) ps)"
  by (induction ps) auto

lemma presence_ok_verified:
  assumes "presence_ok w"
  shows "presence_ok (dispatch v (f, Verified k) w)"
proof (cases "map_of (pending w) k")
  case None
  then show ?thesis using assms by simp
next
  case (Some t)
  let ?w = "w\<lparr>pending := filter (\<lambda>p. fst p \<noteq> k) (pending w)\<rparr>"
  have mem: "(k, t) \<in> set (pending w)"
    using Some by (rule map_of_SomeD)
  have sids: "sids_ok w"
    using assms by (simp add: presence_ok_iff)
  have "presence_ok ?w"
    using assms sids_ok_unpend [OF sids, of k] by (simp add: presence_ok_iff)
  moreover have "k < next_sid ?w" "k \<notin> fst ` set (bound ?w)"
    using pending_sid [OF sids mem] by simp_all
  moreover have "k \<notin> fst ` set (pending ?w)"
    using not_pending_after [of k "pending w"] by simp
  ultimately have "presence_ok (on_connection v k (Some t) ?w)"
    by (rule presence_ok_joined)
  with Some show ?thesis by simp
qed

lemma presence_ok_disconnect:
  assumes "presence_ok w" "map_of (bound w) k = Some u"
  shows "presence_ok (on_disconnect (k, u) w)"
proof -
  have mem: "(k, u) \<in> set (bound w)"
    using assms(2) by (rule map_of_SomeD)
  have live: "dropped w = []"
    using assms(1) by (simp add: presence_ok_iff)
  have "set (set_delete u (onlineUsers w)) \<subseteq> snd ` set (filter (\<lambda>b. fst b \<noteq> k) (bound w))"
  proof
    fix x assume "x \<in> set (set_delete u (onlineUsers w))"
    then have x: "x \<in> set (onlineUsers w)" "x \<noteq> u"
      by (auto simp: set_set_delete)
    with assms(1) obtain j where j: "(j, x) \<in> set (bound w)"
      by (auto simp: presence_ok_iff)
    have "j \<noteq> k"
    proof
      assume "j = k"
      with j mem assms(1) have "x = u"
        by (metis presence_ok_iff sids_ok_def eq_key_imp_eq_value)
      with x show False by simp
    qed
    with j show "x \<in> snd ` set (filter (\<lambda>b. fst b \<noteq> k) (bound w))"
      by force
  qed
  then show ?thesis
    using assms(1) live
    by (auto simp: presence_ok_iff sids_ok_def on_disconnect_def Let_def
        distinct_set_delete distinct_map_filter)
qed

lemma presence_ok_dispatch:
  assumes "presence_ok w" "no_early_close (snd e) w"
  shows "presence_ok (dispatch v e w)"
proof -
  obtain f ev where e: "e = (f, ev)" by (cases e)
  note ok = assms(1)
  show ?thesis
  proof (cases ev)
    case (Connect tok)
    then show ?thesis using ok e by (simp only: presence_ok_connect)
  next
    case (Verified k)
    then show ?thesis using ok e by (simp only: presence_ok_verified)
  next
    case (Disconnect k)
    with assms(2) e have "k \<notin> fst ` set (pending w)"
      by (simp add: no_early_close_def)
    then show ?thesis
      using ok e Disconnect by (simp add: presence_ok_on_socket presence_ok_disconnect)
  next
    case (MessagePage k t)
    have "presence_ok (on_socket k (\<lambda>sess. on_message_page f sess t) w)"
      using ok by (rule presence_ok_on_socket) (rule presence_ok_frame [OF ok], simp_all)
    then show ?thesis using e MessagePage by simp
  next
    case (NewMessage k d)
    have "presence_ok (on_socket k (\<lambda>sess. on_new_message f sess d) w)"
      using ok by (rule presence_ok_on_socket) (rule presence_ok_frame [OF ok], simp_all)
    then show ?thesis using e NewMessage by simp
  next
    case (Sidebar k i)
    have "presence_ok (on_socket k (\<lambda>sess. on_sidebar f sess i) w)"
      using ok by (rule presence_ok_on_socket) (rule presence_ok_frame [OF ok], simp_all)
    then show ?thesis using e Sidebar by simp
  next
    case (Seen k t)
    have "presence_ok (on_socket k (\<lambda>sess. on_seen f sess t) w)"
      using ok by (rule presence_ok_on_socket) (rule presence_ok_frame [OF ok], simp_all)
    then show ?thesis using e Seen by simp
  qed
qed

lemma presence_ok_step:
  "presence_ok w \<Longrightarrow> no_early_close (snd e) w \<Longrightarrow> presence_ok (step v e w)"
  by (simp add: step_def presence_ok_dispatch)

lemma presence_ok_run:
  "presence_ok w \<Longrightarrow> holds_along no_early_close v es w \<Longrightarrow> presence_ok (run v es w)"
  by (induction es arbitrary: w) (simp_all add: presence_ok_step)

lemma presence_ok_start: "presence_ok (start us)"
  by (simp add: presence_ok_iff sids_ok_def start_def)

subsection \<open>Traces in which, moreover, each identity holds one session at a time\<close>

lemma presence_exact_frame:
  assumes "presence_exact w" "onlineUsers w' = onlineUsers w" "bound w' = bound w"
    "next_sid w' = next_sid w" "pending w' = pending w" "dropped w' = dropped w"
  shows "presence_exact w'"
  using assms by (simp add: presence_exact_iff sids_ok_def)

lemma presence_exact_on_socket:
  assumes "presence_exact w" and "\<And>u. map_of (bound w) k = Some u \<Longrightarrow> presence_exact (h (k, u) w)"
  shows "presence_exact (on_socket k h w)"
  using assms by (rule on_socket_cases)

lemma presence_exact_joined:
  assumes ok: "presence_exact w" and k: "k < next_sid w" "k \<notin> fst ` set (bound w)"
    "k \<notin> fst ` set (pending w)"
    and fresh: "\<And>t u. tok = Some t \<Longrightarrow> v t = Inr (Some u) \<Longrightarrow> u_id u \<notin> snd ` set (bound w)"
  shows "presence_exact (on_connection v k tok w)"
  using on_connection_cases [of v k tok w]
proof (elim disjE exE conjE)
  assume "on_connection v k tok w = socket_disconnect k w"
  then show ?thesis
    using ok
    by (simp add: presence_exact_iff sids_ok_def socket_disconnect_def)
next
  fix t and u :: user
  assume tok: "tok = Some t" "v t = Inr (Some u)"
    and eq: "on_connection v k tok w =
      emit ToAll (OnlineUser (set_add (u_id u) (onlineUsers w)))
        (w\<lparr>bound := bound w @ [(k, u_id u)],
           onlineUsers := set_add (u_id u) (onlineUsers w)\<rparr>)"
  show ?thesis
    using ok k fresh [OF tok]
    by (auto simp: eq presence_exact_iff sids_ok_def set_set_add
        distinct_set_add)
qed

lemma presence_exact_connect:
  assumes "presence_exact w"
  shows "presence_exact (dispatch v (f, Connect tok) w)"
proof (cases "awaits_verifier tok")
  case True
  then show ?thesis
    using assms by (auto simp: presence_exact_iff sids_ok_def)
next
  case False
  then have rejected: "on_connection v (next_sid w) tok (w\<lparr>next_sid := Suc (next_sid w)\<rparr>) =
      socket_disconnect (next_sid w) (w\<lparr>next_sid := Suc (next_sid w)\<rparr>)"
    by (simp add: awaits_verifier_def on_connection_def split: option.splits)
  show ?thesis
    using assms False
    by (auto simp: rejected presence_exact_iff sids_ok_def
        socket_disconnect_def)
qed

lemma presence_exact_verified:
  assumes "presence_exact w" "joins_fresh v (Verified k) w"
  shows "presence_exact (dispatch v (f, Verified k) w)"
proof (cases "map_of (pending w) k")
  case None
  then show ?thesis using assms by simp
next
  case (Some t)
  let ?w = "w\<lparr>pending := filter (\<lambda>p. fst p \<noteq> k) (pending w)\<rparr>"
  have mem: "(k, t) \<in> set (pending w)"
    using Some by (rule map_of_SomeD)
  have sids: "sids_ok w" and live: "dropped w = []"
    using assms(1) by (simp_all add: presence_exact_iff)
  have "presence_exact ?w"
    using assms(1) sids_ok_unpend [OF sids, of k] by (simp add: presence_exact_iff)
  moreover have "k < next_sid ?w" "k \<notin> fst ` set (bound ?w)"
    using pending_sid [OF sids mem] by simp_all
  moreover have "k \<notin> fst ` set (pending ?w)"
    using not_pending_after [of k "pending w"] by simp
  moreover have "u_id u \<notin> snd ` set (bound ?w)"
    if "Some t = Some t'" "v t' = Inr (Some u)" for t' u
    using that assms(2) Some live
    by (simp add: joins_fresh_def open_identities_live)
  ultimately have "presence_exact (on_connection v k (Some t) ?w)"
    by (rule presence_exact_joined)
  with Some show ?thesis by simp
qed

lemma presence_exact_disconnect:
  assumes "presence_exact w" "map_of (bound w) k = Some u"
  shows "presence_exact (on_disconnect (k, u) w)"
proof -
  have mem: "(k, u) \<in> set (bound w)"
    using assms(2) by (rule map_of_SomeD)
  have dk: "distinct (map fst (bound w))" and du: "distinct (map snd (bound w))"
    and live: "dropped w = []"
    using assms(1) by (simp_all add: presence_exact_iff sids_ok_def)
  have "snd ` set (filter (\<lambda>b. fst b \<noteq> k) (bound w)) = snd ` set (bound w) - {u}"
  proof (intro equalityI subsetI)
    fix x assume "x \<in> snd ` set (filter (\<lambda>b. fst b \<noteq> k) (bound w))"
    then obtain j where j: "(j, x) \<in> set (bound w)" "j \<noteq> k" by auto
    have "x \<noteq> u"
    proof
      assume "x = u"
      with j mem du have "(j, u) = (k, u)"
        by (metis distinct_map inj_onD snd_conv)
      with j show False by simp
    qed
    with j show "x \<in> snd ` set (bound w) - {u}" by force
  next
    fix x assume "x \<in> snd ` set (bound w) - {u}"
    then obtain j where j: "(j, x) \<in> set (bound w)" "x \<noteq> u" by auto
    have "j \<noteq> k"
    proof
      assume "j = k"
      with j mem dk have "x = u" by (metis eq_key_imp_eq_value)
      with j show False by simp
    qed
    with j show "x \<in> snd ` set (filter (\<lambda>b. fst b \<noteq> k) (bound w))" by force
  qed
  then show ?thesis
    using assms(1) live
    by (auto simp: presence_exact_iff sids_ok_def on_disconnect_def Let_def
        distinct_set_delete distinct_map_filter set_set_delete)
qed

lemma presence_exact_dispatch:
  assumes "presence_exact w" "no_early_close (snd e) w" "joins_fresh v (snd e) w"
  shows "presence_exact (dispatch v e w)"
proof -
  obtain f ev where e: "e = (f, ev)" by (cases e)
  note ok = assms(1)
  show ?thesis
  proof (cases ev)
    case (Connect tok)
    then show ?thesis using ok e by (simp only: presence_exact_connect)
  next
    case (Verified k)
    then show ?thesis using ok assms(3) e by (simp only: snd_conv presence_exact_verified)
  next
    case (Disconnect k)
    with assms(2) e have "k \<notin> fst ` set (pending w)"
      by (simp add: no_early_close_def)
    then show ?thesis
      using ok e Disconnect by (simp add: presence_exact_on_socket presence_exact_disconnect)
  next
    case (MessagePage k t)
    have "presence_exact (on_socket k (\<lambda>sess. on_message_page f sess t) w)"
      using ok by (rule presence_exact_on_socket) (rule presence_exact_frame [OF ok], simp_all)
    then show ?thesis using e MessagePage by simp
  next
    case (NewMessage k d)
    have "presence_exact (on_socket k (\<lambda>sess. on_new_message f sess d) w)"
      using ok by (rule presence_exact_on_socket) (rule presence_exact_frame [OF ok], simp_all)
    then show ?thesis using e NewMessage by simp
  next
    case (Sidebar k i)
    have "presence_exact (on_socket k (\<lambda>sess. on_sidebar f sess i) w)"
      using ok by (rule presence_exact_on_socket) (rule presence_exact_frame [OF ok], simp_all)
    then show ?thesis using e Sidebar by simp
  next
    case (Seen k t)
    have "presence_exact (on_socket k (\<lambda>sess. on_seen f sess t) w)"
      using ok by (rule presence_exact_on_socket) (rule presence_exact_frame [OF ok], simp_all)
    then show ?thesis using e Seen by simp
  qed
qed

lemma presence_exact_step:
  "presence_exact w \<Longrightarrow> no_early_close (snd e) w \<Longrightarrow> joins_fresh v (snd e) w \<Longrightarrow>
   presence_exact (step v e w)"
  by (simp add: step_def presence_exact_dispatch)

lemma presence_exact_run:
  "presence_exact w \<Longrightarrow> holds_along no_early_close v es w \<Longrightarrow>
   holds_along (joins_fresh v) v es w \<Longrightarrow> presence_exact (run v es w)"
  by (induction es arbitrary: w) (simp_all add: presence_exact_step)

lemma presence_exact_start: "presence_exact (start us)"
  by (simp add: presence_exact_iff sids_ok_def start_def)

text \<open>
  A socket that closes while its token is being verified is still joined and added when
  the verifier answers, and its \<^verbatim>\<open>disconnect\<close> listener, registered after the close,
  never runs: the identity stays in the presence set with no open session.
\<close>

lemma early_close_leaves_entry:
  "onlineUsers (run verifier early_close (start [alice, bob])) = [''A''] \<and>
   bound (run verifier early_close (start [alice, bob])) = [(0, ''A'')] \<and>
   dropped (run verifier early_close (start [alice, bob])) = [0] \<and>
   open_identities (run verifier early_close (start [alice, bob])) = {}"
  by code_simp

section \<open>Where a failing store call stops a handler\<close>

lemma emitted_since_self [simp]: "emitted_since w w = []"
  by (simp add: emitted_since_def)

lemma emitted_since_append:
  "emitted w' = emitted w @ es \<Longrightarrow> emitted_since w w' = es"
  by (simp add: emitted_since_def)

lemma emitted_since_store [simp]:
  "emitted_since (w\<lparr>w_store := s\<rparr>) w' = emitted_since w w'"
  by (simp add: emitted_since_def)

lemma nm_fanout_total: "length (emitted_since w (nm_fanout None d i w)) = 4"
  by (simp add: emitted_since_def nm_fanout_def Let_def)

lemma nm_fanout_stops:
  "nm_fanout (Some n) d i w =
     (if n = 4 then w
      else if n = 5 \<or> n = 6
        then w\<lparr>emitted := emitted w @ take 2 (emitted_since w (nm_fanout None d i w))\<rparr>
      else nm_fanout None d i w)"
  by (simp add: emitted_since_def nm_fanout_def emit_def Let_def)

lemma nm_resolve_Some:
  "n \<noteq> 1 \<Longrightarrow> nm_resolve (Some n) d (ConversationModel_findOne s (d_sender d) (d_receiver d)) s
     = Some (nm_resolved d s)"
  "nm_resolve None d (ConversationModel_findOne s (d_sender d) (d_receiver d)) s
     = Some (nm_resolved d s)"
  by (simp_all add: nm_resolve_def nm_resolved_def split: option.split)

lemma on_new_message_from_2:
  assumes "n \<noteq> 0" "n \<noteq> 1"
  shows "on_new_message (Some n) sess d w =
     (if n = 2 then w\<lparr>w_store := snd (nm_resolved d (w_store w))\<rparr>
      else if n = 3
        then w\<lparr>w_store := snd (MessageModel_save d (snd (nm_resolved d (w_store w))))\<rparr>
      else nm_fanout (Some n) d (c_id (fst (nm_resolved d (w_store w))))
             (w\<lparr>w_store := nm_stored d (w_store w)\<rparr>))"
  using assms
  by (simp add: on_new_message_def nm_continue_def nm_resolve_Some nm_stored_def Let_def
      split: prod.split)

lemma on_new_message_at_1:
  "on_new_message (Some 1) sess d w =
     (if ConversationModel_findOne (w_store w) (d_sender d) (d_receiver d) = None then w
      else on_new_message None sess d w)"
proof (cases "ConversationModel_findOne (w_store w) (d_sender d) (d_receiver d)")
  case None
  then show ?thesis
    by (simp add: on_new_message_def nm_continue_def nm_resolve_def)
next
  case (Some c)
  have "nm_fanout (Some 1) d i w' = nm_fanout None d i w'" for i w'
    by (simp add: nm_fanout_stops)
  then show ?thesis
    using Some
    by (simp add: on_new_message_def nm_continue_def nm_resolve_def Let_def split: prod.split)
qed

lemma on_new_message_total:
  "length (emitted_since w (on_new_message None sess d w)) = 4"
  using nm_fanout_total [of "w\<lparr>w_store := nm_stored d (w_store w)\<rparr>" d]
  by (simp add: on_new_message_ok)

lemma on_new_message_stops:
  "on_new_message (Some n) sess d w =
     (if n < 7 \<and>
         (n = 1 \<longrightarrow> ConversationModel_findOne (w_store w) (d_sender d) (d_receiver d) = None)
      then
        if n \<le> 1 then w
        else if n = 2 then w\<lparr>w_store := snd (nm_resolved d (w_store w))\<rparr>
        else if n = 3
          then w\<lparr>w_store := snd (MessageModel_save d (snd (nm_resolved d (w_store w))))\<rparr>
        else w\<lparr>w_store := nm_stored d (w_store w),
               emitted := emitted w @
                 take (if n < 5 then 0 else 2) (emitted_since w (on_new_message None sess d w))\<rparr>
      else on_new_message None sess d w)"
proof -
  consider "n = 0" | "n = 1" | "n = 2" | "n = 3" | "n = 4" | "n = 5 \<or> n = 6" | "7 \<le> n"
    by linarith
  then show ?thesis
  proof cases
    case 1
    then show ?thesis by (simp add: on_new_message_def)
  next
    case 2
    then show ?thesis using on_new_message_at_1 [of sess d w] by auto
  next
    case 3
    then show ?thesis by (simp add: on_new_message_from_2)
  next
    case 4
    then show ?thesis by (simp add: on_new_message_from_2)
  next
    case 5
    then show ?thesis by (simp add: on_new_message_from_2 nm_fanout_stops)
  next
    case 6
    then show ?thesis
      by (auto simp: on_new_message_from_2 nm_fanout_stops on_new_message_ok)
  next
    case 7
    then show ?thesis
      by (simp add: on_new_message_from_2 nm_fanout_stops on_new_message_ok)
  qed
qed

lemma on_message_page_stops:
  "on_message_page (Some n) sess t w =
     (if n = 0 \<or> (n = 1 \<and> UserModel_findById (w_store w) t \<noteq> None)
      then w\<lparr>emitted := emitted w @
                take (if n = 0 then 0 else 1) (emitted_since w (on_message_page None sess t w))\<rparr>
      else on_message_page None sess t w)"
  by (auto simp: on_message_page_def emitted_since_def emit_def Let_def split: option.split)

lemma on_message_page_total:
  "length (emitted_since w (on_message_page None sess t w)) =
     (if UserModel_findById (w_store w) t = None then 0 else 2)"
  by (auto simp: on_message_page_def emitted_since_def emit_def Let_def split: option.split)

lemma on_sidebar_stops:
  "on_sidebar (Some n) sess i w = (if n = 0 then w else on_sidebar None sess i w)"
  by (simp add: on_sidebar_def)

lemma on_sidebar_total: "length (emitted_since w (on_sidebar None sess i w)) = 1"
  by (simp add: on_sidebar_def emitted_since_def)

lemma on_seen_stops:
  "on_seen (Some n) sess t w =
     (if n \<le> 1 then w
      else if n < 4
        then w\<lparr>w_store := MessageModel_updateMany (seen_ids (w_store w) (snd sess) t) t (w_store w)\<rparr>
      else on_seen None sess t w)"
  by (auto simp: on_seen_def Let_def)

lemma on_seen_total: "length (emitted_since w (on_seen None sess t w)) = 2"
  by (simp add: on_seen_def emitted_since_def Let_def)

lemma dispatch_no_store:
  "\<not> awaits_store e \<Longrightarrow> dispatch v (f, e) w = dispatch v (None, e) w"
  by (cases e) (simp_all add: awaits_store_def)

lemma dispatch_extends: "prefix (emitted w) (emitted (dispatch v (f, e) w))"
proof (cases e)
  case (Connect tok)
  then show ?thesis
    using on_connection_extends [of "w\<lparr>next_sid := Suc (next_sid w)\<rparr>" v "next_sid w" tok]
    by simp
next
  case (Verified k)
  then show ?thesis
    using on_connection_extends [of "w\<lparr>pending := filter (\<lambda>p. fst p \<noteq> k) (pending w)\<rparr>" v k]
    by (simp split: option.split)
next
  case (Disconnect k)
  then show ?thesis
    using on_disconnect_extends by (simp add: on_socket_def split: option.split)
next
  case (MessagePage k t)
  then show ?thesis
    using on_message_page_prefix by (simp add: on_socket_def split: option.split)
next
  case (NewMessage k d)
  then show ?thesis
    using on_new_message_prefix by (simp add: on_socket_def split: option.split)
next
  case (Sidebar k i)
  then show ?thesis
    using on_sidebar_prefix by (simp add: on_socket_def split: option.split)
next
  case (Seen k t)
  then show ?thesis
    using on_seen_prefix by (simp add: on_socket_def split: option.split)
qed

lemma dispatch_prefix:
  "prefix (emitted (dispatch v (f, e) w)) (emitted (dispatch v (None, e) w))"
proof (cases e)
  case (MessagePage k t)
  then show ?thesis
    using on_message_page_prefix by (simp add: on_socket_def split: option.split)
next
  case (NewMessage k d)
  then show ?thesis
    using on_new_message_prefix by (simp add: on_socket_def split: option.split)
next
  case (Sidebar k i)
  then show ?thesis
    using on_sidebar_prefix by (simp add: on_socket_def split: option.split)
next
  case (Seen k t)
  then show ?thesis
    using on_seen_prefix by (simp add: on_socket_def split: option.split)
qed simp_all

lemma dispatch_frame:
  assumes "awaits_store e"
  shows "onlineUsers (dispatch v (f, e) w) = onlineUsers w"
    "bound (dispatch v (f, e) w) = bound w" "closed (dispatch v (f, e) w) = closed w"
    "pending (dispatch v (f, e) w) = pending w" "dropped (dispatch v (f, e) w) = dropped w"
  using assms
  by (cases e; simp add: awaits_store_def on_socket_def split: option.split)+

lemma dispatch_emits_last:
  assumes "emits_last e"
  shows "emitted (dispatch v (f, e) w) = emitted w \<or>
         emitted (dispatch v (f, e) w) = emitted (dispatch v (None, e) w)"
proof (cases e)
  case (Sidebar k i)
  then show ?thesis
    using on_sidebar_all_or_nothing by (simp add: on_socket_def split: option.split)
next
  case (Seen k t)
  then show ?thesis
    using on_seen_all_or_nothing by (simp add: on_socket_def split: option.split)
qed (use assms in \<open>simp_all add: emits_last_def\<close>)

lemma stops_new_message:
  assumes e: "e = NewMessage k d"
  shows "(makes_call e w n \<longrightarrow>
      emitted (dispatch v (Some n, e) w) =
        emitted w @ take (emits_before e n) (emitted_since w (dispatch v (None, e) w))) \<and>
   (\<not> makes_call e w n \<longrightarrow> dispatch v (Some n, e) w = dispatch v (None, e) w) \<and>
   (handled e w \<longrightarrow> length (emitted_since w (dispatch v (None, e) w)) = emits_total e w) \<and>
   (makes_call e w n \<and> nothing_before e n \<longrightarrow> dispatch v (Some n, e) w = w) \<and>
   (makes_call e w n \<and> writes_done e n \<longrightarrow>
      w_store (dispatch v (Some n, e) w) = w_store (dispatch v (None, e) w))"
proof (cases "map_of (bound w) k")
  case None
  then show ?thesis
    by (simp add: e on_socket_def handled_def awaits_store_def)
next
  case (Some u)
  have d: "dispatch v (f, e) w = on_new_message f (k, u) d w" for f
    by (simp add: e on_socket_def Some)
  have mc: "makes_call e w n \<longleftrightarrow>
      n < 7 \<and> (n = 1 \<longrightarrow> ConversationModel_findOne (w_store w) (d_sender d) (d_receiver d) = None)"
    by (simp add: e makes_call_def)
  have store: "w_store (on_new_message None (k, u) d w) = nm_stored d (w_store w)"
    by (rule on_new_message_store)
  show ?thesis
    unfolding d mc
    using on_new_message_total [of w "(k, u)" d]
    by (auto simp: on_new_message_stops store e emits_before_def
        emits_total_def nothing_before_def writes_done_def)
qed

lemma stops_new_message_writes:
  assumes "map_of (bound w) k = Some u"
  shows "w_store (dispatch v (Some 2, NewMessage k d) w) = snd (nm_resolved d (w_store w))"
    "w_store (dispatch v (Some 3, NewMessage k d) w) =
       snd (MessageModel_save d (snd (nm_resolved d (w_store w))))"
  using assms by (simp_all add: on_socket_def on_new_message_stops)

lemma stops_message_page:
  assumes e: "e = MessagePage k t"
  shows "(makes_call e w n \<longrightarrow>
      emitted (dispatch v (Some n, e) w) =
        emitted w @ take (emits_before e n) (emitted_since w (dispatch v (None, e) w))) \<and>
   (\<not> makes_call e w n \<longrightarrow> dispatch v (Some n, e) w = dispatch v (None, e) w) \<and>
   (handled e w \<longrightarrow> length (emitted_since w (dispatch v (None, e) w)) = emits_total e w) \<and>
   (makes_call e w n \<and> nothing_before e n \<longrightarrow> dispatch v (Some n, e) w = w) \<and>
   (makes_call e w n \<and> writes_done e n \<longrightarrow>
      w_store (dispatch v (Some n, e) w) = w_store (dispatch v (None, e) w))"
proof (cases "map_of (bound w) k")
  case None
  then show ?thesis
    by (simp add: e on_socket_def handled_def awaits_store_def)
next
  case (Some u)
  have d: "dispatch v (f, e) w = on_message_page f (k, u) t w" for f
    by (simp add: e on_socket_def Some)
  have mc: "makes_call e w n \<longleftrightarrow> n = 0 \<or> (n = 1 \<and> UserModel_findById (w_store w) t \<noteq> None)"
    by (simp add: e makes_call_def)
  show ?thesis
    unfolding d mc
    using on_message_page_total [of w "(k, u)" t]
    by (auto simp: on_message_page_stops e emits_before_def
        emits_total_def nothing_before_def writes_done_def)
qed

lemma stops_sidebar:
  assumes e: "e = Sidebar k i"
  shows "(makes_call e w n \<longrightarrow>
      emitted (dispatch v (Some n, e) w) =
        emitted w @ take (emits_before e n) (emitted_since w (dispatch v (None, e) w))) \<and>
   (\<not> makes_call e w n \<longrightarrow> dispatch v (Some n, e) w = dispatch v (None, e) w) \<and>
   (handled e w \<longrightarrow> length (emitted_since w (dispatch v (None, e) w)) = emits_total e w) \<and>
   (makes_call e w n \<and> nothing_before e n \<longrightarrow> dispatch v (Some n, e) w = w) \<and>
   (makes_call e w n \<and> writes_done e n \<longrightarrow>
      w_store (dispatch v (Some n, e) w) = w_store (dispatch v (None, e) w))"
proof (cases "map_of (bound w) k")
  case None
  then show ?thesis
    by (simp add: e on_socket_def handled_def awaits_store_def)
next
  case (Some u)
  have d: "dispatch v (f, e) w = on_sidebar f (k, u) i w" for f
    by (simp add: e on_socket_def Some)
  have mc: "makes_call e w n \<longleftrightarrow> n = 0"
    by (simp add: e makes_call_def)
  show ?thesis
    unfolding d mc
    using on_sidebar_total [of w "(k, u)" i]
    by (auto simp: on_sidebar_stops e emits_before_def
        emits_total_def nothing_before_def writes_done_def)
qed

lemma stops_seen:
  assumes e: "e = Seen k t"
  shows "(makes_call e w n \<longrightarrow>
      emitted (dispatch v (Some n, e) w) =
        emitted w @ take (emits_before e n) (emitted_since w (dispatch v (None, e) w))) \<and>
   (\<not> makes_call e w n \<longrightarrow> dispatch v (Some n, e) w = dispatch v (None, e) w) \<and>
   (handled e w \<longrightarrow> length (emitted_since w (dispatch v (None, e) w)) = emits_total e w) \<and>
   (makes_call e w n \<and> nothing_before e n \<longrightarrow> dispatch v (Some n, e) w = w) \<and>
   (makes_call e w n \<and> writes_done e n \<longrightarrow>
      w_store (dispatch v (Some n, e) w) = w_store (dispatch v (None, e) w))"
proof (cases "map_of (bound w) k")
  case None
  then show ?thesis
    by (simp add: e on_socket_def handled_def awaits_store_def)
next
  case (Some u)
  have d: "dispatch v (f, e) w = on_seen f (k, u) t w" for f
    by (simp add: e on_socket_def Some)
  have mc: "makes_call e w n \<longleftrightarrow> n < 4"
    by (simp add: e makes_call_def)
  show ?thesis
    unfolding d mc
    using on_seen_total [of w "(k, u)" t]
    by (auto simp: on_seen_stops on_seen_store e emits_before_def
        emits_total_def nothing_before_def writes_done_def)
qed

lemma stops_other:
  assumes "\<not> awaits_store e"
  shows "(makes_call e w n \<longrightarrow>
      emitted (dispatch v (Some n, e) w) =
        emitted w @ take (emits_before e n) (emitted_since w (dispatch v (None, e) w))) \<and>
   (\<not> makes_call e w n \<longrightarrow> dispatch v (Some n, e) w = dispatch v (None, e) w) \<and>
   (handled e w \<longrightarrow> length (emitted_since w (dispatch v (None, e) w)) = emits_total e w) \<and>
   (makes_call e w n \<and> nothing_before e n \<longrightarrow> dispatch v (Some n, e) w = w) \<and>
   (makes_call e w n \<and> writes_done e n \<longrightarrow>
      w_store (dispatch v (Some n, e) w) = w_store (dispatch v (None, e) w))"
proof -
  have "\<not> makes_call e w n" "\<not> handled e w"
    using assms by (cases e; simp add: makes_call_def handled_def awaits_store_def)+
  then show ?thesis
    using dispatch_no_store [OF assms] by simp
qed

lemma dispatch_stops:
  "(makes_call e w n \<longrightarrow>
      emitted (dispatch v (Some n, e) w) =
        emitted w @ take (emits_before e n) (emitted_since w (dispatch v (None, e) w))) \<and>
   (\<not> makes_call e w n \<longrightarrow> dispatch v (Some n, e) w = dispatch v (None, e) w) \<and>
   (handled e w \<longrightarrow> length (emitted_since w (dispatch v (None, e) w)) = emits_total e w) \<and>
   (makes_call e w n \<and> nothing_before e n \<longrightarrow> dispatch v (Some n, e) w = w) \<and>
   (makes_call e w n \<and> writes_done e n \<longrightarrow>
      w_store (dispatch v (Some n, e) w) = w_store (dispatch v (None, e) w))"
proof (cases e)
  case (Connect tok)
  then show ?thesis by (intro stops_other) (simp add: awaits_store_def)
next
  case (Verified k)
  then show ?thesis by (intro stops_other) (simp add: awaits_store_def)
next
  case (Disconnect k)
  then show ?thesis by (intro stops_other) (simp add: awaits_store_def)
next
  case (MessagePage k t)
  then show ?thesis by (rule stops_message_page)
next
  case (NewMessage k d)
  then show ?thesis by (rule stops_new_message)
next
  case (Sidebar k i)
  then show ?thesis by (rule stops_sidebar)
next
  case (Seen k t)
  then show ?thesis by (rule stops_seen)
qed

section \<open>Concurrent creation of a conversation\<close>

text \<open>
  C1: the claim is that two concurrently handled \<^verbatim>\<open>new message\<close> events for the same
  pair leave exactly one conversation row holding both messages. When both handlers'
  \<^verbatim>\<open>findOne\<close> queries are answered before either handler creates the row, each handler
  creates its own row: the pair ends with two rows of one message each. Handled one after
  the other, the same two events leave one row with both messages.
\<close>

theorem concurrent_new_messages_duplicate_conversation:
  "map c_messages (rows_between
      (w_store (new_messages_interleaved (0, ''A'') hi (1, ''B'') yo both_online)) ''A'' ''B'')
     = [[1], [3]] \<and>
   map c_messages (rows_between
      (w_store (on_new_message None (1, ''B'') yo (on_new_message None (0, ''A'') hi both_online)))
      ''A'' ''B'')
     = [[1, 2]]"
  by code_simp

section \<open>Connection handshake\<close>

text \<open>
  C2: a connection whose token is absent (or empty), or whose token the verifier rejects
  (by resolving to no user or by throwing), is closed by \<^verbatim>\<open>socket.disconnect(true)\<close> and
  nothing else happens: the socket is not bound (no room joined, no handler registered),
  the presence set is unchanged, and nothing is emitted, so there is no \<^verbatim>\<open>onlineUser\<close>
  broadcast for it.
\<close>

theorem connection_rejected_is_closed:
  assumes "token = None \<or> token = Some [] \<or>
           (\<exists>t. token = Some t \<and> (v t = Inr None \<or> (\<exists>e. v t = Inl e)))"
  shows "on_connection v k token w = w\<lparr>closed := closed w @ [k]\<rparr> \<and>
         bound (on_connection v k token w) = bound w \<and>
         onlineUsers (on_connection v k token w) = onlineUsers w \<and>
         emitted (on_connection v k token w) = emitted w"
  using assms
  by (auto simp: on_connection_def socket_disconnect_def split: option.splits sum.splits)

theorem connection_rejected_is_closed_witness:
  "on_connection verifier 2 (Some ''forged'') both_online = both_online\<lparr>closed := closed both_online @ [2]\<rparr> \<and>
   bound (on_connection verifier 2 (Some ''forged'') both_online) = bound both_online \<and>
   onlineUsers (on_connection verifier 2 (Some ''forged'') both_online) = onlineUsers both_online \<and>
   emitted (on_connection verifier 2 (Some ''forged'') both_online) = emitted both_online"
proof -
  have "verifier ''forged'' = Inr None"
    by (simp add: verifier_def)
  then have "Some ''forged'' = None \<or> Some ''forged'' = Some [] \<or>
      (\<exists>t. Some ''forged'' = Some t \<and> (verifier t = Inr None \<or> (\<exists>e. verifier t = Inl e)))"
    by simp
  then show ?thesis
    by (rule connection_rejected_is_closed)
qed

section \<open>Marking the peer's messages\<close>

text \<open>
  C3: with the conversation between the viewer and the peer found, the \<^verbatim>\<open>seen\<close>
  handler leaves the message collection in place and sets \<open>seen\<close> on exactly the
  messages of that conversation that the peer (\<^verbatim>\<open>targetUserId\<close>) wrote; every other
  message is unchanged, in particular those the viewer wrote (the viewer and the peer
  being two identities). An immediately repeated call matches no message to modify and
  leaves the store as it is.
\<close>

theorem seen_marks_peer_messages:
  assumes "ConversationModel_findOne (w_store w) userId t = Some c"
  shows "length (messages_coll (w_store (on_seen None (k, userId) t w))) =
           length (messages_coll (w_store w)) \<and>
         (\<forall>i < length (messages_coll (w_store w)).
            (m_id (messages_coll (w_store w) ! i) \<in> set (c_messages c) \<and>
             m_msgByUserId (messages_coll (w_store w) ! i) = t \<longrightarrow>
               messages_coll (w_store (on_seen None (k, userId) t w)) ! i =
                 (messages_coll (w_store w) ! i)\<lparr>m_seen := True\<rparr>) \<and>
            (\<not> (m_id (messages_coll (w_store w) ! i) \<in> set (c_messages c) \<and>
                m_msgByUserId (messages_coll (w_store w) ! i) = t) \<longrightarrow>
               messages_coll (w_store (on_seen None (k, userId) t w)) ! i =
                 messages_coll (w_store w) ! i) \<and>
            (userId \<noteq> t \<and> m_msgByUserId (messages_coll (w_store w) ! i) = userId \<longrightarrow>
               messages_coll (w_store (on_seen None (k, userId) t w)) ! i =
                 messages_coll (w_store w) ! i)) \<and>
         modifiedCount (seen_ids (w_store (on_seen None (k, userId) t w)) userId t) t
           (w_store (on_seen None (k, userId) t w)) = 0 \<and>
         w_store (on_seen None (k, userId) t (on_seen None (k, userId) t w)) =
           w_store (on_seen None (k, userId) t w)"
proof -
  have ids: "seen_ids (w_store w) userId t = c_messages c"
    using assms by (simp add: seen_ids_def)
  have st: "w_store (on_seen None (k, userId) t w) =
      MessageModel_updateMany (c_messages c) t (w_store w)"
    by (simp add: on_seen_store ids)
  have st2: "w_store (on_seen None (k, userId) t (on_seen None (k, userId) t w)) =
      MessageModel_updateMany (c_messages c) t (w_store w)"
    by (simp add: on_seen_store [of k userId t "on_seen None (k, userId) t w"] st ids
        updateMany_idem)
  have ms: "messages_coll (MessageModel_updateMany (c_messages c) t (w_store w)) =
      map (mark_seen (c_messages c) t) (messages_coll (w_store w))"
    by (simp add: MessageModel_updateMany_def)
  show ?thesis
    unfolding st st2
    by (simp add: ms ids modifiedCount_after) (simp add: mark_seen_def)
qed

theorem seen_marks_peer_messages_witness:
  "ConversationModel_findOne (w_store after_chat) ''A'' ''B'' =
     Some \<lparr>c_id = 0, c_sender = ''A'', c_receiver = ''B'', c_messages = [1, 2], c_updatedAt = 3\<rparr> \<and>
   map m_seen (messages_coll (w_store after_chat)) = [False, False] \<and>
   map m_seen (messages_coll (w_store (on_seen None (0, ''A'') ''B'' after_chat))) = [False, True] \<and>
   modifiedCount (seen_ids (w_store (on_seen None (0, ''A'') ''B'' after_chat)) ''A'' ''B'') ''B''
     (w_store (on_seen None (0, ''A'') ''B'' after_chat)) = 0 \<and>
   w_store (on_seen None (0, ''A'') ''B'' (on_seen None (0, ''A'') ''B'' after_chat)) =
     w_store (on_seen None (0, ''A'') ''B'' after_chat)"
proof -
  have h: "ConversationModel_findOne (w_store after_chat) ''A'' ''B'' =
     Some \<lparr>c_id = 0, c_sender = ''A'', c_receiver = ''B'', c_messages = [1, 2], c_updatedAt = 3\<rparr>"
    by code_simp
  have before: "map m_seen (messages_coll (w_store after_chat)) = [False, False]"
    by code_simp
  have after: "map m_seen (messages_coll (w_store (on_seen None (0, ''A'') ''B'' after_chat))) =
      [False, True]"
    by code_simp
  show ?thesis
    using seen_marks_peer_messages [OF h, of 0] h before after by blast
qed

section \<open>Persist, then fan out\<close>

text \<open>
  C4: a \<^verbatim>\<open>new message\<close> event whose store calls all succeed, on a well-formed store,
  ends with the message saved in the message collection and its id appended to the
  message sequence of the pair's conversation. The handler's emissions are exactly four,
  all computed from that final store: the conversation's populated message list, which
  ends with the new message, to the sender's room and then to the receiver's room, and
  the recomputed summary lists, to the sender's room and then to the receiver's room.
\<close>

theorem new_message_persists_then_fans_out:
  assumes wf: "store_wf (w_store w)"
  shows "\<exists>c m.
     ConversationModel_findById (w_store (on_new_message None sess d w)) (c_id c) = Some c \<and>
     between (d_sender d) (d_receiver d) c \<and>
     c_messages c =
       (case ConversationModel_findOne (w_store w) (d_sender d) (d_receiver d) of
          None \<Rightarrow> [] | Some c0 \<Rightarrow> c_messages c0) @ [m_id m] \<and>
     messages_coll (w_store (on_new_message None sess d w)) = messages_coll (w_store w) @ [m] \<and>
     m_text m = d_text d \<and> m_imageUrl m = d_imageUrl d \<and> m_videoUrl m = d_videoUrl d \<and>
     m_msgByUserId m = d_msgByUserId d \<and> \<not> m_seen m \<and>
     populate (w_store (on_new_message None sess d w)) (c_messages c) =
       populate (w_store w)
         (case ConversationModel_findOne (w_store w) (d_sender d) (d_receiver d) of
            None \<Rightarrow> [] | Some c0 \<Rightarrow> c_messages c0) @ [m] \<and>
     emitted (on_new_message None sess d w) =
       emitted w @
         [(ToRoom (d_sender d),
           Message (populate (w_store (on_new_message None sess d w)) (c_messages c))),
          (ToRoom (d_receiver d),
           Message (populate (w_store (on_new_message None sess d w)) (c_messages c))),
          (ToRoom (d_sender d),
           Conversation (getConversation (onlineUsers w)
             (w_store (on_new_message None sess d w)) (d_sender d))),
          (ToRoom (d_receiver d),
           Conversation (getConversation (onlineUsers w)
             (w_store (on_new_message None sess d w)) (d_receiver d)))]"
proof -
  let ?s = "w_store w"
  let ?old = "case ConversationModel_findOne ?s (d_sender d) (d_receiver d) of
                None \<Rightarrow> [] | Some c0 \<Rightarrow> c_messages c0"
  obtain c0 s1 where res: "nm_resolved d ?s = (c0, s1)" by (cases "nm_resolved d ?s")
  obtain m s2 where sav: "MessageModel_save d s1 = (m, s2)" by (cases "MessageModel_save d s1")
  let ?s3 = "ConversationModel_findByIdAndUpdate (c_id c0) (m_id m) s2"
  let ?c = "push_message (c_id c0) (m_id m) (Suc (clock s2)) c0"
  note facts = nm_resolved_facts [OF wf res]
  have m: "m = \<lparr>m_id = next_id s1, m_text = d_text d, m_imageUrl = d_imageUrl d,
               m_videoUrl = d_videoUrl d, m_msgByUserId = d_msgByUserId d, m_seen = False\<rparr>"
    and s2: "s2 = s1\<lparr>messages_coll := messages_coll s1 @ [m], next_id := Suc (next_id s1)\<rparr>"
    using sav by (auto simp: MessageModel_save_def Let_def)
  have stored: "nm_stored d ?s = ?s3"
    by (simp add: nm_stored_def res sav)
  have st: "w_store (on_new_message None sess d w) = ?s3"
    by (simp add: on_new_message_store stored)
  have convs3: "conversations ?s3 =
      map (push_message (c_id c0) (m_id m) (Suc (clock s2))) (conversations s1)"
    by (simp add: ConversationModel_findByIdAndUpdate_def s2)
  have msgs3: "messages_coll ?s3 = messages_coll ?s @ [m]"
    by (simp add: ConversationModel_findByIdAndUpdate_def s2 facts(4))
  have dist: "distinct (map c_id (conversations s1))"
    using facts(1) by (simp add: store_wf_def)
  have byid: "ConversationModel_findById ?s3 (c_id c0) = Some ?c"
    unfolding ConversationModel_findById_def convs3
    using dist facts(2) by (rule find_pushed)
  have cmsgs: "c_messages ?c = ?old @ [m_id m]"
    by (simp add: push_message_def facts(6))
  have old_lt: "i < next_id s1" if "i \<in> set ?old" for i
    using that facts(1) facts(2) facts(6) by (auto simp: store_wf_def list_all_iff)
  have ms_lt: "m_id x < next_id s1" if "x \<in> set (messages_coll ?s)" for x
    using that facts(1) facts(4) by (auto simp: store_wf_def list_all_iff)
  have mid: "m_id m = next_id s1"
    by (simp add: m)
  have old_ne: "i \<noteq> m_id m" if "i \<in> set ?old" for i
    using old_lt [OF that] mid by simp
  have ms_ne: "m_id x \<noteq> m_id m" if "x \<in> set (messages_coll ?s)" for x
    using ms_lt [OF that] mid by simp
  have pop: "populate ?s3 (c_messages ?c) = populate ?s ?old @ [m]"
    unfolding populate_def msgs3 cmsgs
    by (rule populate_snoc [OF old_ne ms_ne])
  have fan: "emitted (on_new_message None sess d w) =
       emitted w @
         [(ToRoom (d_sender d), Message (populate ?s3 (c_messages ?c))),
          (ToRoom (d_receiver d), Message (populate ?s3 (c_messages ?c))),
          (ToRoom (d_sender d), Conversation (getConversation (onlineUsers w) ?s3 (d_sender d))),
          (ToRoom (d_receiver d),
           Conversation (getConversation (onlineUsers w) ?s3 (d_receiver d)))]"
    by (simp add: on_new_message_ok stored res nm_fanout_def Let_def byid)
  have "ConversationModel_findById ?s3 (c_id ?c) = Some ?c"
    using byid by simp
  moreover have "between (d_sender d) (d_receiver d) ?c"
    using facts(3) by (simp add: between_def push_message_def)
  ultimately show ?thesis
    unfolding st
    using cmsgs msgs3 pop fan m
    by (intro exI [of _ ?c] exI [of _ m]) simp
qed

theorem new_message_persists_then_fans_out_witness:
  "store_wf (w_store both_online) \<and>
   map fst (emitted (on_new_message None (0, ''A'') hi both_online)) =
     map fst (emitted both_online) @ [ToRoom ''A'', ToRoom ''B'', ToRoom ''A'', ToRoom ''B''] \<and>
   length (messages_coll (w_store (on_new_message None (0, ''A'') hi both_online))) =
     Suc (length (messages_coll (w_store both_online)))"
proof -
  have h: "store_wf (w_store both_online)"
    by code_simp
  from new_message_persists_then_fans_out [OF h, of "(0, ''A'')" hi]
  obtain c :: conversation and m :: message_doc where
    "messages_coll (w_store (on_new_message None (0, ''A'') hi both_online)) =
       messages_coll (w_store both_online) @ [m]"
    "emitted (on_new_message None (0, ''A'') hi both_online) =
       emitted both_online @
         [(ToRoom (d_sender hi),
           Message (populate (w_store (on_new_message None (0, ''A'') hi both_online)) (c_messages c))),
          (ToRoom (d_receiver hi),
           Message (populate (w_store (on_new_message None (0, ''A'') hi both_online)) (c_messages c))),
          (ToRoom (d_sender hi),
           Conversation (getConversation (onlineUsers both_online)
             (w_store (on_new_message None (0, ''A'') hi both_online)) (d_sender hi))),
          (ToRoom (d_receiver hi),
           Conversation (getConversation (onlineUsers both_online)
             (w_store (on_new_message None (0, ''A'') hi both_online)) (d_receiver hi)))]"
    by blast
  then show ?thesis
    using h by (simp add: hi_def)
qed

section \<open>Persistence failures\<close>

text \<open>
  C5: the claim is that a handler that meets a persistence failure emits either all of its
  events or none. A \<^verbatim>\<open>new message\<close> whose first \<^verbatim>\<open>getConversation\<close> call rejects has
  already emitted the \<^verbatim>\<open>message\<close> list to both rooms and emits no \<^verbatim>\<open>conversation\<close>
  list: two of its four emissions happen.
\<close>

theorem store_failure_partial_fanout:
  "emitted (dispatch verifier (Some 5, NewMessage 0 hi) both_online) \<noteq> emitted both_online \<and>
   emitted (dispatch verifier (Some 5, NewMessage 0 hi) both_online) \<noteq>
     emitted (dispatch verifier (None, NewMessage 0 hi) both_online) \<and>
   map fst (drop 2 (emitted (dispatch verifier (Some 5, NewMessage 0 hi) both_online))) =
     [ToRoom ''A'', ToRoom ''B''] \<and>
   map fst (drop 2 (emitted (dispatch verifier (None, NewMessage 0 hi) both_online))) =
     [ToRoom ''A'', ToRoom ''B'', ToRoom ''A'', ToRoom ''B'']"
  by code_simp

text \<open>
  C5, as the handlers behave. Let store call \<open>n\<close> of the handler of an event reject.
  If the handler makes that call, it ends there: it has emitted exactly the events that
  precede the call in the undisturbed run, in the same order, and emits nothing after it.
  These are none for \<^verbatim>\<open>sidebar\<close> and \<^verbatim>\<open>seen\<close>, none for \<^verbatim>\<open>new message\<close> up to its
  \<^verbatim>\<open>findById\<close> and the two \<^verbatim>\<open>message\<close> events of four at its \<^verbatim>\<open>getConversation\<close>
  calls, none for \<^verbatim>\<open>message-page\<close> at the user lookup and \<^verbatim>\<open>message-user\<close> alone, of
  two, at the conversation lookup. If the handler does not make that call, it runs as
  undisturbed. A failure before the handler has written or emitted anything leaves the
  state as it was; a failure after all its writes leaves the store as the undisturbed run
  does; a \<^verbatim>\<open>new message\<close> that fails at \<^verbatim>\<open>message.save\<close> leaves the store with the
  conversation resolved or created, and one that fails at \<^verbatim>\<open>findByIdAndUpdate\<close> leaves
  it with the message saved and not pushed. No event signals the failure, and the
  presence set, the bound sessions and the closed, pending and dropped sockets are
  unchanged.
\<close>

theorem store_failure_stops_handler:
  "(makes_call e w n \<longrightarrow>
      emitted (dispatch v (Some n, e) w) =
        emitted w @ take (emits_before e n) (emitted_since w (dispatch v (None, e) w))) \<and>
   (\<not> makes_call e w n \<longrightarrow> dispatch v (Some n, e) w = dispatch v (None, e) w) \<and>
   (handled e w \<longrightarrow> length (emitted_since w (dispatch v (None, e) w)) = emits_total e w) \<and>
   (makes_call e w n \<and> nothing_before e n \<longrightarrow> dispatch v (Some n, e) w = w) \<and>
   (makes_call e w n \<and> writes_done e n \<longrightarrow>
      w_store (dispatch v (Some n, e) w) = w_store (dispatch v (None, e) w)) \<and>
   (\<forall>k d u. e = NewMessage k d \<and> map_of (bound w) k = Some u \<longrightarrow>
      (n = 2 \<longrightarrow> w_store (dispatch v (Some n, e) w) = snd (nm_resolved d (w_store w))) \<and>
      (n = 3 \<longrightarrow> w_store (dispatch v (Some n, e) w) =
                   snd (MessageModel_save d (snd (nm_resolved d (w_store w)))))) \<and>
   (awaits_store e \<longrightarrow>
      onlineUsers (dispatch v (Some n, e) w) = onlineUsers w \<and>
      bound (dispatch v (Some n, e) w) = bound w \<and>
      closed (dispatch v (Some n, e) w) = closed w \<and>
      pending (dispatch v (Some n, e) w) = pending w \<and>
      dropped (dispatch v (Some n, e) w) = dropped w) \<and>
   prefix (emitted w) (emitted (dispatch v (Some n, e) w)) \<and>
   prefix (emitted (dispatch v (Some n, e) w)) (emitted (dispatch v (None, e) w)) \<and>
   (emits_last e \<longrightarrow>
      emitted (dispatch v (Some n, e) w) = emitted w \<or>
      emitted (dispatch v (Some n, e) w) = emitted (dispatch v (None, e) w))"
proof -
  have writes: "\<forall>k d u. e = NewMessage k d \<and> map_of (bound w) k = Some u \<longrightarrow>
      (n = 2 \<longrightarrow> w_store (dispatch v (Some n, e) w) = snd (nm_resolved d (w_store w))) \<and>
      (n = 3 \<longrightarrow> w_store (dispatch v (Some n, e) w) =
                   snd (MessageModel_save d (snd (nm_resolved d (w_store w)))))"
    using stops_new_message_writes by blast
  have frame: "awaits_store e \<longrightarrow>
      onlineUsers (dispatch v (Some n, e) w) = onlineUsers w \<and>
      bound (dispatch v (Some n, e) w) = bound w \<and>
      closed (dispatch v (Some n, e) w) = closed w \<and>
      pending (dispatch v (Some n, e) w) = pending w \<and>
      dropped (dispatch v (Some n, e) w) = dropped w"
    by (simp add: dispatch_frame)
  have last: "emits_last e \<longrightarrow>
      emitted (dispatch v (Some n, e) w) = emitted w \<or>
      emitted (dispatch v (Some n, e) w) = emitted (dispatch v (None, e) w)"
    using dispatch_emits_last by blast
  show ?thesis
    using dispatch_stops [of e w n v] writes frame last
      dispatch_extends [of w v "Some n" e] dispatch_prefix [of v "Some n" e w]
    by blast
qed

theorem store_failure_stops_handler_witness:
  "makes_call (NewMessage 0 hi) both_online 5 \<and>
   \<not> makes_call (NewMessage 0 hi) both_online 9 \<and>
   emits_before (NewMessage 0 hi) 5 = 2 \<and>
   emits_total (NewMessage 0 hi) both_online = 4 \<and>
   emitted (dispatch verifier (Some 5, NewMessage 0 hi) both_online) =
     emitted both_online @
       take 2 (emitted_since both_online (dispatch verifier (None, NewMessage 0 hi) both_online)) \<and>
   length (emitted_since both_online (dispatch verifier (None, NewMessage 0 hi) both_online)) = 4 \<and>
   dispatch verifier (Some 9, NewMessage 0 hi) both_online =
     dispatch verifier (None, NewMessage 0 hi) both_online \<and>
   dispatch verifier (Some 0, NewMessage 0 hi) both_online = both_online \<and>
   w_store (dispatch verifier (Some 5, NewMessage 0 hi) both_online) =
     w_store (dispatch verifier (None, NewMessage 0 hi) both_online) \<and>
   w_store (dispatch verifier (Some 2, NewMessage 0 hi) both_online) =
     snd (nm_resolved hi (w_store both_online)) \<and>
   onlineUsers (dispatch verifier (Some 5, NewMessage 0 hi) both_online) = onlineUsers both_online \<and>
   bound (dispatch verifier (Some 5, NewMessage 0 hi) both_online) = bound both_online \<and>
   (emitted (dispatch verifier (Some 2, Seen 0 ''B'') both_online) = emitted both_online \<or>
    emitted (dispatch verifier (Some 2, Seen 0 ''B'') both_online) =
      emitted (dispatch verifier (None, Seen 0 ''B'') both_online))"
proof -
  have mc5: "makes_call (NewMessage 0 hi) both_online 5"
    and mc9: "\<not> makes_call (NewMessage 0 hi) both_online 9"
    and mc0: "makes_call (NewMessage 0 hi) both_online 0"
    and nb: "nothing_before (NewMessage 0 hi) 0"
    and wd: "writes_done (NewMessage 0 hi) 5"
    and hd: "handled (NewMessage 0 hi) both_online"
    and aw: "awaits_store (NewMessage 0 hi)"
    and el: "emits_last (Seen 0 ''B'')"
    and bd: "map_of (bound both_online) 0 = Some ''A''"
    and eb: "emits_before (NewMessage 0 hi) 5 = 2"
    and et: "emits_total (NewMessage 0 hi) both_online = 4"
    by code_simp+
  have two: "(2::nat) = 2" by simp
  note at5 = store_failure_stops_handler [of "NewMessage 0 hi" both_online 5 verifier]
  note at9 = store_failure_stops_handler [of "NewMessage 0 hi" both_online 9 verifier]
  note at0 = store_failure_stops_handler [of "NewMessage 0 hi" both_online 0 verifier]
  note at2 = store_failure_stops_handler [of "NewMessage 0 hi" both_online 2 verifier]
  note seen2 = store_failure_stops_handler [of "Seen 0 ''B''" both_online 2 verifier]
  have a: "emitted (dispatch verifier (Some 5, NewMessage 0 hi) both_online) =
     emitted both_online @
       take 2 (emitted_since both_online (dispatch verifier (None, NewMessage 0 hi) both_online))"
    using at5 mc5 eb by simp
  have b: "length (emitted_since both_online
      (dispatch verifier (None, NewMessage 0 hi) both_online)) = 4"
    using at5 hd et by simp
  have c: "dispatch verifier (Some 9, NewMessage 0 hi) both_online =
      dispatch verifier (None, NewMessage 0 hi) both_online"
    using at9 mc9 by blast
  have d: "dispatch verifier (Some 0, NewMessage 0 hi) both_online = both_online"
    using at0 mc0 nb by blast
  have e: "w_store (dispatch verifier (Some 5, NewMessage 0 hi) both_online) =
      w_store (dispatch verifier (None, NewMessage 0 hi) both_online)"
    using at5 mc5 wd by blast
  have f: "w_store (dispatch verifier (Some 2, NewMessage 0 hi) both_online) =
      snd (nm_resolved hi (w_store both_online))"
    using at2 bd two by blast
  have g: "onlineUsers (dispatch verifier (Some 5, NewMessage 0 hi) both_online) =
      onlineUsers both_online"
    "bound (dispatch verifier (Some 5, NewMessage 0 hi) both_online) = bound both_online"
    using at5 aw by blast+
  have h: "emitted (dispatch verifier (Some 2, Seen 0 ''B'') both_online) = emitted both_online \<or>
    emitted (dispatch verifier (Some 2, Seen 0 ''B'') both_online) =
      emitted (dispatch verifier (None, Seen 0 ''B'') both_online)"
    using seen2 el by blast
  show ?thesis
    using mc5 mc9 eb et a b c d e f g h by simp
qed

section \<open>Fetching history\<close>

text \<open>
  C6: a \<^verbatim>\<open>message-page\<close> event for a target that is not in the user store leaves the
  state as it is, whatever the store does later: nothing is emitted. When the target
  exists and the store answers, exactly two events are emitted, both to the requesting
  socket: \<^verbatim>\<open>message-user\<close> with the profile and then \<^verbatim>\<open>message\<close> with the
  messages of the shared conversation (none if there is no conversation).
\<close>

theorem message_page_target:
  "(UserModel_findById (w_store w) t = None \<longrightarrow> on_message_page f (k, userId) t w = w) \<and>
   (\<forall>u. UserModel_findById (w_store w) t = Some u \<longrightarrow>
      on_message_page None (k, userId) t w =
        w\<lparr>emitted := emitted w @
            [(ToSocket k,
              MessageUser \<lparr>p_id = u_id u, p_name = u_name u, p_email = u_email u,
                           p_profile_pic = u_profile_pic u,
                           p_online = set_has t (onlineUsers w)\<rparr>),
             (ToSocket k,
              Message (case ConversationModel_findOne_sorted (w_store w) userId t of
                         None \<Rightarrow> []
                       | Some c \<Rightarrow> populate (w_store w) (c_messages c)))]\<rparr>)"
  by (simp add: on_message_page_def emit_def Let_def split: option.split)

theorem message_page_target_witness:
  "on_message_page None (0, ''A'') ''C'' both_online = both_online \<and>
   emitted (on_message_page None (0, ''A'') ''B'' both_online) =
     emitted both_online @
       [(ToSocket 0, MessageUser \<lparr>p_id = ''B'', p_name = ''Bob'', p_email = ''b@x'',
                                  p_profile_pic = ''b.png'', p_online = True\<rparr>),
        (ToSocket 0, Message [])]"
proof -
  have a: "UserModel_findById (w_store both_online) ''C'' = None" by code_simp
  have b: "UserModel_findById (w_store both_online) ''B'' = Some bob" by code_simp
  have c: "ConversationModel_findOne_sorted (w_store both_online) ''A'' ''B'' = None" by code_simp
  have d: "set_has ''B'' (onlineUsers both_online)" by code_simp
  from message_page_target [of both_online "''C''" None 0 "''A''"] a
  have 1: "on_message_page None (0, ''A'') ''C'' both_online = both_online" by simp
  from message_page_target [of both_online "''B''" None 0 "''A''"] b
  have 2: "on_message_page None (0, ''A'') ''B'' both_online =
        both_online\<lparr>emitted := emitted both_online @
            [(ToSocket 0,
              MessageUser \<lparr>p_id = u_id bob, p_name = u_name bob, p_email = u_email bob,
                           p_profile_pic = u_profile_pic bob,
                           p_online = set_has ''B'' (onlineUsers both_online)\<rparr>),
             (ToSocket 0,
              Message (case ConversationModel_findOne_sorted (w_store both_online) ''A'' ''B'' of
                         None \<Rightarrow> []
                       | Some c \<Rightarrow> populate (w_store both_online) (c_messages c)))]\<rparr>"
    by blast
  show ?thesis
    using 1 by (simp add: 2 c d bob_def)
qed

section \<open>Presence and open sessions\<close>

text \<open>
  C7: the claim is that after any sequence of joins and leaves the presence set equals the
  set of identities with an open, bound session. With two sessions of one identity open,
  the disconnect of the first deletes the identity although the second is still open.
\<close>

theorem presence_misses_second_session:
  "onlineUsers (run verifier two_tabs (start [alice, bob])) = [] \<and>
   bound (run verifier two_tabs (start [alice, bob])) = [(1, ''A'')] \<and>
   dropped (run verifier two_tabs (start [alice, bob])) = [] \<and>
   set (onlineUsers (run verifier two_tabs (start [alice, bob]))) \<noteq>
     open_identities (run verifier two_tabs (start [alice, bob]))"
  by code_simp

text \<open>
  C7, as the presence set behaves. In a sequence of connections, verifications,
  disconnects and other events in which no socket closes while its token is being
  verified, every identity in the presence set holds an open, bound session; if moreover
  no connection is verified as an identity that already holds an open session, the
  presence set equals the set of identities with an open, bound session. In every
  sequence the presence set has no duplicates; adding an identity twice is the same as
  adding it once; and right after the \<^verbatim>\<open>disconnect\<close> listener of an identity's socket has
  run, the set does not contain the identity.
\<close>

theorem presence_matches_open_sessions:
  "(holds_along no_early_close v es (start us) \<and> holds_along (joins_fresh v) v es (start us) \<longrightarrow>
      set (onlineUsers (run v es (start us))) = open_identities (run v es (start us))) \<and>
   (holds_along no_early_close v es (start us) \<longrightarrow>
      set (onlineUsers (run v es (start us))) \<subseteq> open_identities (run v es (start us))) \<and>
   distinct (onlineUsers (run v es (start us))) \<and>
   set_add x (set_add x xs) = set_add x xs \<and>
   x \<notin> set (onlineUsers (on_disconnect (k, x) w))"
proof -
  have "holds_along no_early_close v es (start us) \<Longrightarrow> presence_ok (run v es (start us))"
    using presence_ok_start by (rule presence_ok_run)
  moreover have "holds_along no_early_close v es (start us) \<Longrightarrow>
      holds_along (joins_fresh v) v es (start us) \<Longrightarrow> presence_exact (run v es (start us))"
    using presence_exact_start by (rule presence_exact_run)
  moreover have "distinct (onlineUsers (run v es (start us)))"
    by (rule distinct_online_run) (simp add: start_def)
  moreover have "set_add x (set_add x xs) = set_add x xs"
    by (simp add: set_add_def)
  moreover have "x \<notin> set (onlineUsers (on_disconnect (k, x) w))"
    by (simp add: on_disconnect_def Let_def set_set_delete)
  ultimately show ?thesis
    by (auto simp: presence_ok_def presence_exact_def)
qed

theorem presence_matches_open_sessions_witness:
  "holds_along no_early_close verifier come_and_go (start [alice, bob]) \<and>
   holds_along (joins_fresh verifier) verifier come_and_go (start [alice, bob]) \<and>
   set (onlineUsers (run verifier come_and_go (start [alice, bob]))) =
     open_identities (run verifier come_and_go (start [alice, bob])) \<and>
   onlineUsers (run verifier come_and_go (start [alice, bob])) = [''B'', ''A'']"
proof -
  have h1: "holds_along no_early_close verifier come_and_go (start [alice, bob])"
    by code_simp
  have h2: "holds_along (joins_fresh verifier) verifier come_and_go (start [alice, bob])"
    by code_simp
  have r: "onlineUsers (run verifier come_and_go (start [alice, bob])) = [''B'', ''A'']"
    by code_simp
  show ?thesis
    using presence_matches_open_sessions [of verifier come_and_go "[alice, bob]"] h1 h2 r
    by blast
qed

section \<open>Conversation summaries\<close>

text \<open>
  C8: the summary list computed for an identity has one entry for each conversation that
  involves the identity, in the order of \<open>conversations_of\<close>, which holds exactly those
  conversations, most recently updated first. On a well-formed store, after a
  \<^verbatim>\<open>new message\<close> event appended to an existing conversation of a pair, whichever its
  age, the lists next computed for the sender and for the receiver start with that
  conversation.
\<close>

theorem summaries_newest_first:
  "map s_id (getConversation on s x) = map c_id (conversations_of s x) \<and>
   set (conversations_of s x) = {c \<in> set (conversations s). involves x c} \<and>
   length (conversations_of s x) = length (filter (involves x) (conversations s)) \<and>
   sorted_wrt (\<lambda>a b. c_updatedAt b \<le> c_updatedAt a) (conversations_of s x) \<and>
   (store_wf (w_store w) \<and>
    ConversationModel_findOne (w_store w) (d_sender d) (d_receiver d) = Some c \<longrightarrow>
      (\<exists>rest. map s_id (getConversation on (w_store (on_new_message None sess d w)) (d_sender d))
                 = c_id c # rest) \<and>
      (\<exists>rest. map s_id (getConversation on (w_store (on_new_message None sess d w)) (d_receiver d))
                 = c_id c # rest))"
proof -
  have ids: "\<And>on s x. map s_id (getConversation on s x) = map c_id (conversations_of s x)"
    by (simp add: getConversation_def summarise_def o_def)
  have front: "\<exists>rest. map c_id (conversations_of (nm_stored d (w_store w)) y) = c_id c # rest"
    if wf: "store_wf (w_store w)"
      and found: "ConversationModel_findOne (w_store w) (d_sender d) (d_receiver d) = Some c"
      and y: "involves y c" for y
  proof -
    have "c \<in> set (conversations (w_store w))"
      using found by (rule find_between_SomeD)
    with store_wf_clock [OF wf] y show ?thesis
      unfolding conversations_of_def nm_stored_found [OF found]
      by (intro pushed_row_first) auto
  qed
  have inv: "involves (d_sender d) c \<and> involves (d_receiver d) c"
    if "ConversationModel_findOne (w_store w) (d_sender d) (d_receiver d) = Some c"
    using that by (intro between_involves find_between_SomeD)
  show ?thesis
    using front inv
    by (simp add: ids on_new_message_store sorted_newest_first conversations_of_def)
qed

theorem summaries_newest_first_witness:
  "store_wf (w_store two_threads) \<and>
   ConversationModel_findOne (w_store two_threads) ''B'' ''A'' =
     Some \<lparr>c_id = 0, c_sender = ''A'', c_receiver = ''B'', c_messages = [1], c_updatedAt = 2\<rparr> \<and>
   map s_id (getConversation [] (w_store two_threads) ''A'') = [2, 0] \<and>
   map s_id (getConversation [] (w_store (on_new_message None (1, ''B'') yo two_threads)) ''A'')
     = [0, 2] \<and>
   (\<exists>rest. map s_id (getConversation [] (w_store (on_new_message None (1, ''B'') yo two_threads))
               (d_receiver yo)) = 0 # rest)"
proof -
  have wf: "store_wf (w_store two_threads)"
    by code_simp
  have found: "ConversationModel_findOne (w_store two_threads) (d_sender yo) (d_receiver yo) =
     Some \<lparr>c_id = 0, c_sender = ''A'', c_receiver = ''B'', c_messages = [1], c_updatedAt = 2\<rparr>"
    by code_simp
  have before: "map s_id (getConversation [] (w_store two_threads) ''A'') = [2, 0]"
    by code_simp
  have after: "map s_id (getConversation []
      (w_store (on_new_message None (1, ''B'') yo two_threads)) ''A'') = [0, 2]"
    by code_simp
  have "\<exists>rest. map s_id (getConversation [] (w_store (on_new_message None (1, ''B'') yo two_threads))
               (d_receiver yo)) = 0 # rest"
    using summaries_newest_first [of "[]" "w_store two_threads" "''A''" two_threads yo
        "\<lparr>c_id = 0, c_sender = ''A'', c_receiver = ''B'', c_messages = [1], c_updatedAt = 2\<rparr>"
        "(1, ''B'')"] wf found
    by (simp del: One_nat_def)
  then show ?thesis
    using wf found before after by (simp add: yo_def)
qed

section \<open>The sender of a new message\<close>

text \<open>
  C9: what the \<^verbatim>\<open>new message\<close> handler does depends on the payload, the state and
  the store's answers only, not on the session that submits it: two bound sessions
  submitting the same payload against the same state produce the same state, hence the
  same store mutations and the same emissions. The stored message carries the author the
  payload names, whoever the session is.
\<close>

theorem new_message_ignores_session:
  assumes "map_of (bound w) k1 = Some u1" and "map_of (bound w) k2 = Some u2"
  shows "dispatch v (f, NewMessage k1 data) w = dispatch v (f, NewMessage k2 data) w \<and>
         dispatch v (f, NewMessage k1 data) w = on_new_message f (k1, u1) data w \<and>
         on_new_message f (k1, u1) data w = on_new_message f (k2, u2) data w \<and>
         (\<exists>i. messages_coll (w_store (dispatch v (None, NewMessage k1 data) w)) =
                messages_coll (w_store w) @
                  [\<lparr>m_id = i, m_text = d_text data, m_imageUrl = d_imageUrl data,
                    m_videoUrl = d_videoUrl data, m_msgByUserId = d_msgByUserId data,
                    m_seen = False\<rparr>])"
proof -
  have same: "on_new_message f (k1, u1) data w = on_new_message f (k2, u2) data w"
    by (simp add: on_new_message_def nm_continue_def)
  have d1: "dispatch v (f, NewMessage k1 data) w = on_new_message f (k1, u1) data w" for f
    using assms(1) by (simp add: on_socket_def)
  have d2: "dispatch v (f, NewMessage k2 data) w = on_new_message f (k2, u2) data w"
    using assms(2) by (simp add: on_socket_def)
  have "messages_coll (w_store (on_new_message None (k1, u1) data w)) =
      messages_coll (w_store w) @
        [\<lparr>m_id = next_id (snd (nm_resolved data (w_store w))), m_text = d_text data,
          m_imageUrl = d_imageUrl data, m_videoUrl = d_videoUrl data,
          m_msgByUserId = d_msgByUserId data, m_seen = False\<rparr>]"
    by (simp add: on_new_message_store nm_stored_messages)
  then have "messages_coll (w_store (dispatch v (None, NewMessage k1 data) w)) =
      messages_coll (w_store w) @
        [\<lparr>m_id = next_id (snd (nm_resolved data (w_store w))), m_text = d_text data,
          m_imageUrl = d_imageUrl data, m_videoUrl = d_videoUrl data,
          m_msgByUserId = d_msgByUserId data, m_seen = False\<rparr>]"
    by (simp only: d1)
  then show ?thesis
    using same d1 d2 by (intro conjI exI) simp_all
qed

theorem new_message_ignores_session_witness:
  "dispatch verifier (None, NewMessage 0 yo) both_online =
     dispatch verifier (None, NewMessage 1 yo) both_online \<and>
   dispatch verifier (None, NewMessage 0 yo) both_online =
     on_new_message None (0, ''A'') yo both_online \<and>
   on_new_message None (0, ''A'') yo both_online = on_new_message None (1, ''B'') yo both_online \<and>
   map m_msgByUserId (messages_coll (w_store (dispatch verifier (None, NewMessage 0 yo) both_online)))
     = [''B'']"
proof -
  have a: "map_of (bound both_online) 0 = Some ''A''" by (simp add: both_online_def)
  have b: "map_of (bound both_online) 1 = Some ''B''" by (simp add: both_online_def)
  have c: "map m_msgByUserId
      (messages_coll (w_store (dispatch verifier (None, NewMessage 0 yo) both_online))) = [''B'']"
    by code_simp
  show ?thesis
    using new_message_ignores_session [OF a b, of verifier None yo] c by blast
qed

section \<open>Marking as seen without a conversation\<close>

text \<open>
  C10: when no conversation exists between the session's identity and the target, the
  \<^verbatim>\<open>seen\<close> handler changes no message (the update matches nothing) and still emits the
  recomputed \<^verbatim>\<open>conversation\<close> lists, first to the viewer's room and then to the
  target's room.
\<close>

theorem seen_without_conversation:
  assumes "ConversationModel_findOne (w_store w) userId t = None"
  shows "modifiedCount (seen_ids (w_store w) userId t) t (w_store w) = 0 \<and>
         on_seen None (k, userId) t w =
           w\<lparr>emitted := emitted w @
               [(ToRoom userId,
                 Conversation (getConversation (onlineUsers w) (w_store w) userId)),
                (ToRoom t, Conversation (getConversation (onlineUsers w) (w_store w) t))]\<rparr>"
proof -
  have ids: "seen_ids (w_store w) userId t = []"
    using assms by (simp add: seen_ids_def)
  have "mark_seen [] t = (\<lambda>m. m)"
    by (rule ext) (simp add: mark_seen_def)
  then have upd: "MessageModel_updateMany [] t (w_store w) = w_store w"
    by (simp add: MessageModel_updateMany_def)
  show ?thesis
    by (simp add: on_seen_def ids upd modifiedCount_def emit_def Let_def)
qed

theorem seen_without_conversation_witness:
  "modifiedCount (seen_ids (w_store both_online) ''A'' ''B'') ''B'' (w_store both_online) = 0 \<and>
   on_seen None (0, ''A'') ''B'' both_online =
     both_online\<lparr>emitted := emitted both_online @
       [(ToRoom ''A'',
         Conversation (getConversation (onlineUsers both_online) (w_store both_online) ''A'')),
        (ToRoom ''B'',
         Conversation (getConversation (onlineUsers both_online) (w_store both_online) ''B''))]\<rparr>"
proof -
  have "ConversationModel_findOne (w_store both_online) ''A'' ''B'' = None"
    by code_simp
  then show ?thesis
    by (rule seen_without_conversation)
qed

end
